theory Spec2Isabelle
  imports Complex_Main "HOL-Library.Multiset"
begin

section \<open>Numbers\<close>

text \<open>
  The server is JavaScript: every number is an IEEE double. The embedding uses \<open>int\<close> for
  the values that are integers by construction (\<open>Date.now()\<close> differences, lengths,
  token counts) and \<open>real\<close> for client-supplied numbers and for quotients. Arithmetic
  is exact: rounding error of doubles is not modelled. The concrete inputs evaluated
  below are chosen so that the double computation is exact as well.
\<close>

definition js_round :: "real \<Rightarrow> int" where
  \<comment> \<open>\<open>Math.round\<close>: the nearest integer, ties towards plus infinity\<close>
  "js_round x = \<lfloor>x + 1 / 2\<rfloor>"

section \<open>Typing statistics (\<open>utils/socketHelpers.js\<close>)\<close>

text \<open>The keystroke object that the \<open>test:keystroke\<close> handler pushes onto the log.\<close>

record keystroke =
  k_timestamp :: real
  k_key :: string
  k_correct :: bool
  k_position :: real
  k_currentText :: string
  k_serverTimestamp :: int

text \<open>
  The object returned by \<open>calculateTypingStats\<close>. The early return has no
  \<open>position\<close> property, hence the option.
\<close>

record typing_stats =
  s_wpm :: int
  s_accuracy :: int
  s_consistency :: int
  s_errors :: int
  s_correctChars :: int
  s_incorrectChars :: int
  s_position :: "int option"

definition windowSize :: int where
  "windowSize = 2000"

text \<open>
  The \<open>for\<close> loop of \<open>calculateConsistency\<close> that splits the log into 2-second
  windows; the result is the array \<open>windows\<close> in push order.
\<close>

function windows_loop :: "keystroke list \<Rightarrow> int \<Rightarrow> int \<Rightarrow> real list" where
  "windows_loop keystrokes timeElapsed windowStart =
     (if windowStart < timeElapsed then
        (let windowEnd = windowStart + windowSize;
             windowKeystrokes = filter (\<lambda>k. k_timestamp k \<ge> of_int windowStart
                                           \<and> k_timestamp k < of_int windowEnd) keystrokes
         in (if length windowKeystrokes > 0
             then [(real (length windowKeystrokes) / 5) / (of_int windowSize / (1000 * 60))]
             else [])
            @ windows_loop keystrokes timeElapsed windowEnd)
      else [])"
  by pat_completeness auto

termination
  by (relation "measure (\<lambda>(keystrokes, timeElapsed, windowStart). nat (timeElapsed - windowStart))")
     (auto simp: windowSize_def)

declare windows_loop.simps [simp del]

definition calculateConsistency :: "keystroke list \<Rightarrow> int \<Rightarrow> int" where
  "calculateConsistency keystrokes timeElapsed =
     (if length keystrokes < 10 then 0
      else
        (let windows = windows_loop keystrokes timeElapsed 0 in
         if length windows < 2 then 0
         else
           (let mean = foldl (\<lambda>a b. a + b) 0 windows / real (length windows);
                variance = foldl (\<lambda>acc wpm. acc + (wpm - mean) ^ 2) 0 windows
                             / real (length windows);
                stdDev = sqrt variance;
                coefficientOfVariation = (if mean > 0 then stdDev / mean else 1)
            in max 0 (min 100 (js_round (100 - coefficientOfVariation * 100))))))"

definition calculateTypingStats :: "keystroke list \<Rightarrow> string \<Rightarrow> int \<Rightarrow> typing_stats" where
  "calculateTypingStats keystrokes text timeElapsed =
     (if keystrokes = [] \<or> timeElapsed \<le> 0 then
        \<lparr>s_wpm = 0, s_accuracy = 100, s_consistency = 0, s_errors = 0,
         s_correctChars = 0, s_incorrectChars = 0, s_position = None\<rparr>
      else
        (let totalKeystrokes = int (length keystrokes);
             correctKeystrokes = int (length (filter k_correct keystrokes));
             incorrectKeystrokes = totalKeystrokes - correctKeystrokes;
             charactersTyped = max (int (length keystrokes)) 1;
             minutes = of_int timeElapsed / (1000 * 60);
             wpm = js_round ((of_int charactersTyped / 5) / minutes);
             accuracy = js_round ((of_int correctKeystrokes / of_int totalKeystrokes) * 100);
             consistency = calculateConsistency keystrokes timeElapsed
         in \<lparr>s_wpm = max 0 wpm,
             s_accuracy = max 0 (min 100 accuracy),
             s_consistency = max 0 (min 100 consistency),
             s_errors = incorrectKeystrokes,
             s_correctChars = correctKeystrokes,
             s_incorrectChars = incorrectKeystrokes,
             s_position = Some (int (length keystrokes))\<rparr>))"





text \<open>A keystroke at a given time, with the given client verdict.\<close>

definition mk_key :: "real \<Rightarrow> bool \<Rightarrow> keystroke" where
  "mk_key t c = \<lparr>k_timestamp = t, k_key = ''a'', k_correct = c, k_position = 0,
                 k_currentText = '''', k_serverTimestamp = 0\<rparr>"



section \<open>Rate limiter (\<open>utils/rateLimiter.js\<close>)\<close>

text \<open>
  The limiter keeps one token bucket per key \<open>limitType:key\<close> in a \<open>Map\<close>; the key
  is the pair here. The limit type is one of the five configured names, so the
  \<open>Unknown rate limit type\<close> error cannot arise. \<open>checkRate\<close> mutates the bucket in
  place; the model returns the store with the bucket written back. \<open>Date.now()\<close> is
  the parameter \<open>now\<close>, in milliseconds. The periodic \<open>cleanup\<close>, which evicts
  buckets created more than ten minutes ago, is not part of the model.
\<close>

datatype limit_type = Connection | Keystroke | RaceProgress | ChatMessage | General

record limit_config =
  l_tokens :: int
  l_refillRate :: int
  l_window :: int

fun limits :: "limit_type \<Rightarrow> limit_config" where
  "limits Connection = \<lparr>l_tokens = 10, l_refillRate = 1, l_window = 60000\<rparr>"
| "limits Keystroke = \<lparr>l_tokens = 20, l_refillRate = 20, l_window = 1000\<rparr>"
| "limits RaceProgress = \<lparr>l_tokens = 10, l_refillRate = 10, l_window = 1000\<rparr>"
| "limits ChatMessage = \<lparr>l_tokens = 5, l_refillRate = 1, l_window = 12000\<rparr>"
| "limits General = \<lparr>l_tokens = 100, l_refillRate = 1, l_window = 600\<rparr>"

record bucket =
  b_tokens :: int
  b_lastRefill :: int
  b_createdAt :: int

record rate_result =
  r_allowed :: bool
  r_remaining :: int
  r_resetTime :: int
  r_retryAfter :: "int option"

type_synonym buckets = "limit_type \<times> string \<rightharpoonup> bucket"

definition checkRate :: "buckets \<Rightarrow> string \<Rightarrow> limit_type \<Rightarrow> int \<Rightarrow> rate_result \<times> buckets" where
  "checkRate buckets key limitType now =
     (let limit = limits limitType;
          bucketKey = (limitType, key);
          bucket = (case buckets bucketKey of
                      None \<Rightarrow> \<lparr>b_tokens = l_tokens limit, b_lastRefill = now, b_createdAt = now\<rparr>
                    | Some b \<Rightarrow> b);
          elapsed = now - b_lastRefill bucket;
          tokensToAdd = \<lfloor>real_of_int elapsed
                           / (real_of_int (l_window limit) / real_of_int (l_refillRate limit))\<rfloor>;
          bucket = (if tokensToAdd > 0
                    then bucket\<lparr>b_tokens := min (l_tokens limit) (b_tokens bucket + tokensToAdd),
                                b_lastRefill := now\<rparr>
                    else bucket)
      in if b_tokens bucket > 0 then
           (let bucket = bucket\<lparr>b_tokens := b_tokens bucket - 1\<rparr>
            in (\<lparr>r_allowed = True, r_remaining = b_tokens bucket,
                 r_resetTime = b_lastRefill bucket + l_window limit, r_retryAfter = None\<rparr>,
                buckets(bucketKey \<mapsto> bucket)))
         else
           (\<lparr>r_allowed = False, r_remaining = 0,
             r_resetTime = b_lastRefill bucket + l_window limit,
             r_retryAfter = Some \<lceil>(real_of_int (l_window limit) / real_of_int (l_refillRate limit))
                                    - real_of_int elapsed\<rceil>\<rparr>,
            buckets(bucketKey \<mapsto> bucket)))"

definition checkKeystrokeRate :: "buckets \<Rightarrow> string \<Rightarrow> int \<Rightarrow> rate_result \<times> buckets" where
  "checkKeystrokeRate buckets userId now = checkRate buckets userId Keystroke now"

text \<open>
  A run of \<open>test:keystroke\<close> rate checks, one per event \<open>(userId, now)\<close>, and the
  number of events of one identity that are accepted inside the window
  \<open>[W, W + 1000)\<close>.
\<close>

fun accepted_in_window :: "buckets \<Rightarrow> string \<Rightarrow> int \<Rightarrow> (string \<times> int) list \<Rightarrow> nat" where
  "accepted_in_window buckets u W [] = 0"
| "accepted_in_window buckets u W ((v, now) # evs) =
     (case checkKeystrokeRate buckets v now of
        (res, buckets') \<Rightarrow>
          (if v = u \<and> W \<le> now \<and> now < W + 1000 \<and> r_allowed res then 1 else 0)
          + accepted_in_window buckets' u W evs)"

text \<open>
  The step of \<open>checkRate\<close> on one identity's keystroke bucket, in integers: the tokens
  after the refill and before the decrement, and the time of the last refill.
\<close>

definition ks_tokens :: "bucket option \<Rightarrow> int \<Rightarrow> int" where
  "ks_tokens b now = (case b of None \<Rightarrow> 20 
     | Some b \<Rightarrow> if (now - b_lastRefill b) div 50 > 0 then min 20 (b_tokens b + (now - b_lastRefill b) div 50) else b_tokens b)"

definition ks_last :: "bucket option \<Rightarrow> int \<Rightarrow> int" where
  "ks_last b now = (case b of None \<Rightarrow> now 
     | Some b \<Rightarrow> if (now - b_lastRefill b) div 50 > 0 then now else b_lastRefill b)"

text \<open>
  What holds of a stored keystroke bucket before a run of events: every check has taken
  a token or found none, so at most 19 tokens are left, and the last refill is not later
  than the events to come.
\<close>

definition bucket_ok :: "bucket option \<Rightarrow> (string \<times> int) list \<Rightarrow> bool" where
  "bucket_ok bo evs = (case bo of None \<Rightarrow> True
     | Some b \<Rightarrow> 0 \<le> b_tokens b \<and> b_tokens b \<le> 19 \<and> list_all (\<lambda>e. b_lastRefill b \<le> snd e) evs)"

section \<open>Typing-test sessions (\<open>sockets/testEvents.js\<close>)\<close>

text \<open>
  A handler takes the server state (the limiter's buckets and \<open>activeTestSessions\<close>),
  the user id of the socket, the payload and the clock, and returns the new state and
  what it emitted, in order. Every read of the clock in one handler invocation is the
  one value \<open>now\<close>. A payload is a typed record; the constraints of its Joi schema
  that a typed record can break are the \<open>Schema\<close> predicates. In
  \<open>completeTestSession\<close> the read of \<open>testSession.startTime.getTime()\<close> throws
  while the start time is \<open>null\<close>, after the session has been marked completed; the
  function's own \<open>catch\<close> answers with \<open>SERVER_ERROR\<close>. The delayed deletion of a
  completed session is not part of the model.
\<close>

datatype game_mode = TimeMode | WordsMode

record test_session =
  ts_testId :: string
  ts_userId :: string
  ts_mode :: game_mode
  ts_duration :: real
  ts_wordCount :: real
  ts_words :: string
  ts_keystrokes :: "keystroke list"
  ts_startTime :: "int option"
  ts_endTime :: "int option"
  ts_isCompleted :: bool
  ts_createdAt :: int
  ts_lastActivity :: int

record keystroke_data =
  kd_testId :: string
  kd_timestamp :: real
  kd_key :: string
  kd_correct :: bool
  kd_position :: real
  kd_currentText :: "string option"

record final_stats =
  fs_wpm :: real
  fs_accuracy :: real
  fs_consistency :: "real option"
  fs_errors :: real
  fs_timeElapsed :: real

record test_result =
  tr_testId :: string
  tr_wpm :: real
  tr_accuracy :: real
  tr_consistency :: real
  tr_errors :: real
  tr_timeElapsed :: int
  tr_mode :: game_mode
  tr_wordCount :: "real option"
  tr_duration :: "real option"
  tr_completedAt :: int

datatype test_emit =
    TestError int string "int option"
  | StatsUpdate string typing_stats int
  | TestResult test_result
  | FriendTestCompleted string real real test_result

record test_server =
  sv_buckets :: buckets
  sv_sessions :: "string \<rightharpoonup> test_session"

definition emitRateLimitError :: "int option \<Rightarrow> test_emit" where
  "emitRateLimitError retryAfter =
     TestError 4001 ''RATE_LIMITED''
       (case retryAfter of None \<Rightarrow> None
        | Some r \<Rightarrow> if r = 0 then None else Some \<lceil>real_of_int r / 1000\<rceil>)"

definition keystrokeSchema :: "keystroke_data \<Rightarrow> bool" where
  "keystrokeSchema d =
     (kd_testId d \<noteq> [] \<and> 0 \<le> kd_timestamp d \<and> length (kd_key d) = 1 \<and> 0 \<le> kd_position d
      \<and> (case kd_currentText d of None \<Rightarrow> True | Some s \<Rightarrow> s \<noteq> []))"

definition testCompletedSchema :: "string \<Rightarrow> final_stats \<Rightarrow> bool" where
  "testCompletedSchema testId fs =
     (testId \<noteq> [] \<and> 0 \<le> fs_wpm fs \<and> 0 \<le> fs_accuracy fs \<and> fs_accuracy fs \<le> 100
      \<and> (case fs_consistency fs of None \<Rightarrow> True | Some c \<Rightarrow> 0 \<le> c \<and> c \<le> 100)
      \<and> 0 \<le> fs_errors fs \<and> 0 \<le> fs_timeElapsed fs)"

definition completeTestSession ::
  "string \<Rightarrow> test_session \<Rightarrow> final_stats option \<Rightarrow> int \<Rightarrow> test_session \<times> test_emit list" where
  "completeTestSession userId testSession providedStats now =
     (if ts_isCompleted testSession then (testSession, [])
      else
        (let testSession = testSession\<lparr>ts_endTime := Some now, ts_isCompleted := True\<rparr> in
         case ts_startTime testSession of
           None \<Rightarrow> (testSession, [TestError 5001 ''SERVER_ERROR'' None])
         | Some startTime \<Rightarrow>
             (let totalTime = now - startTime;
                  result =
                    (case providedStats of
                       Some finalStats \<Rightarrow>
                         \<lparr>tr_testId = ts_testId testSession,
                          tr_wpm = fs_wpm finalStats,
                          tr_accuracy = fs_accuracy finalStats,
                          tr_consistency = (case fs_consistency finalStats of None \<Rightarrow> 0 | Some c \<Rightarrow> c),
                          tr_errors = fs_errors finalStats,
                          tr_timeElapsed = totalTime,
                          tr_mode = ts_mode testSession,
                          tr_wordCount = (if ts_mode testSession = WordsMode
                                          then Some (ts_wordCount testSession) else None),
                          tr_duration = (if ts_mode testSession = TimeMode
                                         then Some (ts_duration testSession) else None),
                          tr_completedAt = now\<rparr>
                     | None \<Rightarrow>
                         (let finalStats = calculateTypingStats (ts_keystrokes testSession)
                                             (ts_words testSession) totalTime
                          in \<lparr>tr_testId = ts_testId testSession,
                              tr_wpm = of_int (s_wpm finalStats),
                              tr_accuracy = of_int (s_accuracy finalStats),
                              tr_consistency = of_int (s_consistency finalStats),
                              tr_errors = of_int (s_errors finalStats),
                              tr_timeElapsed = totalTime,
                              tr_mode = ts_mode testSession,
                              tr_wordCount = (if ts_mode testSession = WordsMode
                                              then Some (ts_wordCount testSession) else None),
                              tr_duration = (if ts_mode testSession = TimeMode
                                             then Some (ts_duration testSession) else None),
                              tr_completedAt = now\<rparr>))
              in (testSession,
                  [TestResult result,
                   FriendTestCompleted userId (tr_wpm result) (tr_accuracy result) result]))))"

definition stored_keystroke :: "keystroke_data \<Rightarrow> int \<Rightarrow> keystroke" where
  "stored_keystroke data now =
     \<lparr>k_timestamp = kd_timestamp data, k_key = kd_key data,
      k_correct = kd_correct data, k_position = kd_position data,
      k_currentText = (case kd_currentText data of None \<Rightarrow> [] | Some s \<Rightarrow> s),
      k_serverTimestamp = now\<rparr>"

definition session_start :: "test_session \<Rightarrow> int \<Rightarrow> int" where
  "session_start testSession now =
     (case ts_startTime testSession of None \<Rightarrow> now | Some t \<Rightarrow> t)"

definition test_keystroke ::
  "test_server \<Rightarrow> string \<Rightarrow> keystroke_data \<Rightarrow> int \<Rightarrow> test_server \<times> test_emit list" where
  "test_keystroke sv userId data now =
     (case checkKeystrokeRate (sv_buckets sv) userId now of
        (rateLimitResult, buckets') \<Rightarrow>
          (let sv = sv\<lparr>sv_buckets := buckets'\<rparr> in
           if \<not> r_allowed rateLimitResult
           then (sv, [emitRateLimitError (r_retryAfter rateLimitResult)])
           else if \<not> keystrokeSchema data
           then (sv, [TestError 3001 ''VALIDATION_ERROR'' None])
           else
             (case sv_sessions sv (kd_testId data) of
                None \<Rightarrow> (sv, [TestError 3001 ''TEST_NOT_FOUND'' None])
              | Some testSession \<Rightarrow>
                  if ts_userId testSession \<noteq> userId
                  then (sv, [TestError 3002 ''ACCESS_DENIED'' None])
                  else if ts_isCompleted testSession
                  then (sv, [TestError 3003 ''TEST_COMPLETED'' None])
                  else
                    (let startTime = session_start testSession now;
                         keystrokeData = stored_keystroke data now;
                         testSession = testSession
                           \<lparr>ts_startTime := Some startTime,
                            ts_keystrokes := ts_keystrokes testSession @ [keystrokeData],
                            ts_lastActivity := now\<rparr>;
                         timeElapsed = now - startTime;
                         stats = calculateTypingStats (ts_keystrokes testSession)
                                   (ts_words testSession) timeElapsed;
                         statsUpdate = StatsUpdate (kd_testId data) stats timeElapsed;
                         shouldComplete =
                           (if ts_mode testSession = TimeMode
                               \<and> of_int timeElapsed \<ge> ts_duration testSession * 1000 then True
                            else if ts_mode testSession = WordsMode
                               \<and> kd_position data \<ge> real (length (ts_words testSession)) then True
                            else False)
                     in if shouldComplete then
                          (case completeTestSession userId testSession None now of
                             (testSession, out) \<Rightarrow>
                               (sv\<lparr>sv_sessions := (sv_sessions sv)(kd_testId data \<mapsto> testSession)\<rparr>,
                                statsUpdate # out))
                        else
                          (sv\<lparr>sv_sessions := (sv_sessions sv)(kd_testId data \<mapsto> testSession)\<rparr>,
                           [statsUpdate])))))"

definition test_completed ::
  "test_server \<Rightarrow> string \<Rightarrow> string \<Rightarrow> final_stats \<Rightarrow> int \<Rightarrow> test_server \<times> test_emit list" where
  "test_completed sv userId testId finalStats now =
     (if \<not> testCompletedSchema testId finalStats
      then (sv, [TestError 3001 ''VALIDATION_ERROR'' None])
      else
        (case sv_sessions sv testId of
           None \<Rightarrow> (sv, [TestError 3001 ''TEST_NOT_FOUND'' None])
         | Some testSession \<Rightarrow>
             if ts_userId testSession \<noteq> userId
             then (sv, [TestError 3002 ''ACCESS_DENIED'' None])
             else
               (case completeTestSession userId testSession (Some finalStats) now of
                  (testSession, out) \<Rightarrow>
                    (sv\<lparr>sv_sessions := (sv_sessions sv)(testId \<mapsto> testSession)\<rparr>, out))))"

text \<open>The session object that \<open>test:join\<close> creates, and a server that holds just it.\<close>

definition new_test_session :: "string \<Rightarrow> string \<Rightarrow> string \<Rightarrow> int \<Rightarrow> test_session" where
  "new_test_session testId userId words now =
     \<lparr>ts_testId = testId, ts_userId = userId, ts_mode = TimeMode, ts_duration = 60,
      ts_wordCount = 50, ts_words = words, ts_keystrokes = [], ts_startTime = None,
      ts_endTime = None, ts_isCompleted = False, ts_createdAt = now, ts_lastActivity = now\<rparr>"

definition server0 :: test_server where
  "server0 = \<lparr>sv_buckets = Map.empty,
              sv_sessions = [''t1'' \<mapsto> new_test_session ''t1'' ''u1'' ''the of and'' 0]\<rparr>"

definition key_event :: "real \<Rightarrow> bool \<Rightarrow> keystroke_data" where
  "key_event t c = \<lparr>kd_testId = ''t1'', kd_timestamp = t, kd_key = ''t'', kd_correct = c,
                    kd_position = 0, kd_currentText = None\<rparr>"

definition client_stats :: "real \<Rightarrow> final_stats" where
  "client_stats w = \<lparr>fs_wpm = w, fs_accuracy = 100, fs_consistency = None, fs_errors = 0,
                     fs_timeElapsed = 1000\<rparr>"

text \<open>Two keystrokes one second apart, both with the client verdict \<open>c\<close>.\<close>

definition two_keys :: "bool \<Rightarrow> test_server \<times> test_emit list" where
  "two_keys c = test_keystroke (fst (test_keystroke server0 ''u1'' (key_event 0 c) 0))
                  ''u1'' (key_event 1000 c) 1000"

text \<open>The server after the first keystroke of \<open>two_keys True\<close>, and its session.\<close>

definition server1 :: test_server where
  "server1 = fst (test_keystroke server0 ''u1'' (key_event 0 True) 0)"

definition session1 :: test_session where
  "session1 = (new_test_session ''t1'' ''u1'' ''the of and'' 0)
     \<lparr>ts_keystrokes := [stored_keystroke (key_event 0 True) 0],
      ts_startTime := Some 0, ts_lastActivity := 0\<rparr>"

text \<open>
  Twenty keystroke events of one identity in the same millisecond and one more 50 ms
  later; the same burst followed by one event every 50 ms up to 950 ms; and a server
  whose keystroke bucket for \<open>u1\<close> has been emptied at time 0.
\<close>

definition burst_then_one :: "(string \<times> int) list" where
  "burst_then_one = replicate 20 (''u1'', 0) @ [(''u1'', 50)]"

definition full_second :: "(string \<times> int) list" where
  "full_second = replicate 20 (''u1'', 0) @ map (\<lambda>i. (''u1'', 50 * int i)) [1..<20]"

definition drained :: test_server where
  "drained = server0\<lparr>sv_buckets :=
     [(Keystroke, ''u1'') \<mapsto> \<lparr>b_tokens = 0, b_lastRefill = 0, b_createdAt = 0\<rparr>]\<rparr>"

section \<open>Multiplayer races (\<open>sockets/raceEvents.js\<close>)\<close>

text \<open>
  The handlers below are the socket handlers after their rate-limit check (the limiter
  is modelled above, with the typing test). A payload is a typed record; the
  constraints of its Joi schema that a typed record can break (empty strings, ranges)
  are the \<open>Schema\<close> predicates, and \<open>validateRaceConfig\<close> repeats those of
  \<open>raceCreateSchema\<close>. Every read of the clock in one handler invocation is the one
  value \<open>now\<close>. Fields that no handler reads (room code, word list id, privacy flag,
  avatar, join time) are left out, and so are the \<open>averageWpm\<close> of the results and
  the trimming of chat messages.
\<close>

datatype race_status = Waiting | Countdown | Active | Finished

record player =
  p_userId :: string
  p_username :: string
  p_position :: real
  p_wpm :: real
  p_accuracy :: real
  p_errors :: real
  p_isFinished :: bool
  p_finishTime :: "real option"
  p_rank :: "int option"
  p_consistency :: "real option"

text \<open>
  The roster \<open>race.players\<close> is a JavaScript \<open>Map\<close> from user id to player object:
  a list of players in insertion order, looked up by \<open>p_userId\<close>. The two fields
  \<open>rc_countdown\<close> and \<open>rc_timeoutArmed\<close> stand for the timers of the race: the
  closure variable \<open>countdown\<close> of the armed countdown interval, and the pending race
  timeout.
\<close>

record race =
  rc_id :: string
  rc_name :: string
  rc_mode :: game_mode
  rc_duration :: "real option"
  rc_wordCount :: "real option"
  rc_maxPlayers :: real
  rc_words :: string
  rc_createdBy :: string
  rc_status :: race_status
  rc_players :: "player list"
  rc_startTime :: "int option"
  rc_endTime :: "int option"
  rc_countdownStarted :: bool
  rc_countdown :: "nat option"
  rc_timeoutArmed :: bool

type_synonym registry = "string \<rightharpoonup> race"

record race_config =
  cfg_name :: string
  cfg_mode :: game_mode
  cfg_duration :: "real option"
  cfg_wordCount :: "real option"
  cfg_maxPlayers :: "real option"

record progress_data =
  pd_raceId :: string
  pd_position :: real
  pd_wpm :: real
  pd_accuracy :: real
  pd_errors :: real
  pd_isFinished :: bool

record race_final_stats =
  rf_wpm :: real
  rf_accuracy :: real
  rf_consistency :: "real option"
  rf_errors :: real
  rf_finishTime :: real

record progress_entry =
  pe_id :: string
  pe_username :: string
  pe_position :: real
  pe_wpm :: real
  pe_accuracy :: real
  pe_rank :: int
  pe_isFinished :: bool

record ranking =
  rk_rank :: "int option"
  rk_userId :: string
  rk_username :: string
  rk_wpm :: real
  rk_accuracy :: real
  rk_consistency :: real
  rk_errors :: real
  rk_finishTime :: "real option"
  rk_isFinished :: bool

record race_results =
  rr_raceId :: string
  rr_winner :: "string option"
  rr_rankings :: "ranking list"
  rr_totalPlayers :: nat
  rr_finishedPlayers :: nat
  rr_duration :: int

datatype race_emit =
    RaceError int string
  | RaceCreated race
  | RaceJoined race player
  | RacePlayerJoined player
  | RacePlayerLeft string
  | RaceStart string nat string
  | RaceCountdown nat
  | RaceBegin int string
  | RacePlayerFinished string "int option" real real "real option"
  | RaceProgressUpdate "progress_entry list"
  | RaceCompleted race_results
  | RaceMessageReceived string string

subsection \<open>The roster as a map\<close>

definition has_player :: "player list \<Rightarrow> string \<Rightarrow> bool" where
  "has_player players userId = list_ex (\<lambda>p. p_userId p = userId) players"

definition get_player :: "player list \<Rightarrow> string \<Rightarrow> player option" where
  "get_player players userId = find (\<lambda>p. p_userId p = userId) players"

definition delete_player :: "player list \<Rightarrow> string \<Rightarrow> player list" where
  "delete_player players userId = filter (\<lambda>p. p_userId p \<noteq> userId) players"

text \<open>A mutation of the player object stored under a user id.\<close>

definition update_player :: "player list \<Rightarrow> string \<Rightarrow> (player \<Rightarrow> player) \<Rightarrow> player list" where
  "update_player players userId f = map (\<lambda>p. if p_userId p = userId then f p else p) players"

definition new_player :: "string \<Rightarrow> string \<Rightarrow> player" where
  "new_player userId username =
     \<lparr>p_userId = userId, p_username = username, p_position = 0, p_wpm = 0, p_accuracy = 100,
      p_errors = 0, p_isFinished = False, p_finishTime = None, p_rank = None,
      p_consistency = None\<rparr>"

text \<open>
  \<open>!player.finishTime\<close> holds for \<open>null\<close> and for 0; the comparator
  \<open>a.finishTime - b.finishTime\<close> reads \<open>null\<close> as 0; \<open>Array.prototype.sort\<close>
  is stable, as \<open>sort_key\<close> is.
\<close>

definition falsy_time :: "real option \<Rightarrow> bool" where
  "falsy_time t = (case t of None \<Rightarrow> True | Some x \<Rightarrow> x = 0)"

definition finish_key :: "player \<Rightarrow> real" where
  "finish_key p = (case p_finishTime p of None \<Rightarrow> 0 | Some t \<Rightarrow> t)"

fun findIndex :: "('a \<Rightarrow> bool) \<Rightarrow> 'a list \<Rightarrow> int" where
  "findIndex P [] = -1"
| "findIndex P (x # xs) =
     (if P x then 0 else (let i = findIndex P xs in if i < 0 then -1 else i + 1))"

subsection \<open>Completion\<close>

definition ranking_of :: "player \<Rightarrow> ranking" where
  "ranking_of p =
     \<lparr>rk_rank = p_rank p, rk_userId = p_userId p, rk_username = p_username p, rk_wpm = p_wpm p,
      rk_accuracy = p_accuracy p,
      rk_consistency = (case p_consistency p of None \<Rightarrow> 0 | Some c \<Rightarrow> c),
      rk_errors = p_errors p, rk_finishTime = p_finishTime p, rk_isFinished = p_isFinished p\<rparr>"

text \<open>
  The two \<open>forEach\<close> loops of \<open>endRace\<close> assign \<open>player.rank\<close> on objects that
  the roster shares with the arrays: \<open>assign_ranks\<close> is a loop, \<open>write_back\<close> puts
  the mutated objects where the roster holds them.
\<close>

definition assign_ranks :: "nat \<Rightarrow> player list \<Rightarrow> player list" where
  "assign_ranks offset ps =
     map (\<lambda>(player, index). player\<lparr>p_rank := Some (int offset + int index + 1)\<rparr>)
       (zip ps [0..<length ps])"

definition write_back :: "player list \<Rightarrow> player list \<Rightarrow> player list" where
  "write_back mutated players =
     map (\<lambda>p. case find (\<lambda>q. p_userId q = p_userId p) mutated of
                 Some q \<Rightarrow> q | None \<Rightarrow> p) players"

text \<open>
  \<open>endRace\<close> returns the race, what it broadcast, and whether it threw: building the
  results reads \<open>race.startTime.getTime()\<close>, a \<open>TypeError\<close> while the start time is
  \<open>null\<close>, raised after the status, the end time and the ranks have been written.
\<close>

definition endRace :: "race \<Rightarrow> int \<Rightarrow> race \<times> race_emit list \<times> bool" where
  "endRace race now =
     (if rc_status race = Finished then (race, [], False)
      else
        (let players = rc_players race;
             finishedPlayers = sort_key finish_key (filter p_isFinished players);
             unfinishedPlayers = filter (\<lambda>p. \<not> p_isFinished p) players;
             finishedPlayers = assign_ranks 0 finishedPlayers;
             unfinishedPlayers = assign_ranks (length finishedPlayers) unfinishedPlayers;
             players = write_back (finishedPlayers @ unfinishedPlayers) players;
             race = race\<lparr>rc_status := Finished, rc_endTime := Some now, rc_players := players\<rparr>;
             rankings = map ranking_of (finishedPlayers @ unfinishedPlayers);
             winner = (case finishedPlayers of w # _ \<Rightarrow> Some (p_userId w)
                       | [] \<Rightarrow> (case players of w # _ \<Rightarrow> Some (p_userId w) | [] \<Rightarrow> None))
         in case rc_startTime race of
              None \<Rightarrow> (race, [], True)
            | Some startTime \<Rightarrow>
                (race,
                 [RaceCompleted
                    \<lparr>rr_raceId = rc_id race, rr_winner = winner, rr_rankings = rankings,
                     rr_totalPlayers = length players,
                     rr_finishedPlayers = length finishedPlayers,
                     rr_duration = now - startTime\<rparr>],
                 False)))"

definition checkRaceCompletion :: "race \<Rightarrow> int \<Rightarrow> race \<times> race_emit list \<times> bool" where
  "checkRaceCompletion race now =
     (let finishedPlayers = filter p_isFinished (rc_players race);
          totalPlayers = length (rc_players race)
      in if length finishedPlayers = totalPlayers then endRace race now
         else if rc_mode race = TimeMode then
           (case rc_startTime race of
              None \<Rightarrow> (race, [], True)
            | Some startTime \<Rightarrow>
                (case rc_duration race of
                   None \<Rightarrow> (race, [], False)
                 | Some duration \<Rightarrow>
                     if of_int (now - startTime) \<ge> duration * 1000 then endRace race now
                     else (race, [], False)))
         else (race, [], False))"

subsection \<open>Countdown and timers\<close>

definition startRaceCountdown :: "race \<Rightarrow> race \<times> race_emit list" where
  "startRaceCountdown race =
     (if rc_countdownStarted race \<or> rc_status race \<noteq> Waiting then (race, [])
      else (race\<lparr>rc_countdownStarted := True, rc_status := Countdown, rc_countdown := Some 5\<rparr>,
            [RaceStart (rc_id race) 5 (rc_words race)]))"

text \<open>One firing of the countdown interval, and the firing of the race timeout.\<close>

definition countdown_tick :: "race \<Rightarrow> int \<Rightarrow> race \<times> race_emit list" where
  "countdown_tick race now =
     (case rc_countdown race of
        None \<Rightarrow> (race, [])
      | Some countdown \<Rightarrow>
          if countdown > 0
          then (race\<lparr>rc_countdown := Some (countdown - 1)\<rparr>, [RaceCountdown countdown])
          else (race\<lparr>rc_countdown := None, rc_status := Active, rc_startTime := Some now,
                      rc_timeoutArmed := True\<rparr>,
                [RaceBegin now (rc_words race)]))"

definition race_timeout :: "race \<Rightarrow> int \<Rightarrow> race \<times> race_emit list" where
  "race_timeout race now =
     (if \<not> rc_timeoutArmed race then (race, [])
      else
        (let race = race\<lparr>rc_timeoutArmed := False\<rparr> in
         if rc_status race = Active
         then (case endRace race now of (race, out, threw) \<Rightarrow> (race, out))
         else (race, [])))"

subsection \<open>Handlers\<close>

definition raceCreateSchema :: "race_config \<Rightarrow> bool" where
  "raceCreateSchema c =
     (1 \<le> length (cfg_name c) \<and> length (cfg_name c) \<le> 50
      \<and> (case cfg_duration c of None \<Rightarrow> cfg_mode c \<noteq> TimeMode | Some d \<Rightarrow> 15 \<le> d \<and> d \<le> 300)
      \<and> (case cfg_wordCount c of None \<Rightarrow> cfg_mode c \<noteq> WordsMode | Some w \<Rightarrow> 10 \<le> w \<and> w \<le> 200)
      \<and> (case cfg_maxPlayers c of None \<Rightarrow> True | Some m \<Rightarrow> 2 \<le> m \<and> m \<le> 20))"

definition new_race :: "string \<Rightarrow> string \<Rightarrow> string \<Rightarrow> string \<Rightarrow> race_config \<Rightarrow> race" where
  "new_race raceId words userId username c =
     \<lparr>rc_id = raceId, rc_name = cfg_name c, rc_mode = cfg_mode c, rc_duration = cfg_duration c,
      rc_wordCount = cfg_wordCount c,
      rc_maxPlayers = (case cfg_maxPlayers c of None \<Rightarrow> 5 | Some m \<Rightarrow> m),
      rc_words = words, rc_createdBy = userId, rc_status = Waiting,
      rc_players = [new_player userId username],
      rc_startTime = None, rc_endTime = None, rc_countdownStarted = False,
      rc_countdown = None, rc_timeoutArmed = False\<rparr>"

text \<open>
  \<open>race:create\<close>; the generated race id and the generated words are parameters.
\<close>

definition race_create ::
  "registry \<Rightarrow> string \<Rightarrow> string \<Rightarrow> string \<Rightarrow> string \<Rightarrow> race_config \<Rightarrow> registry \<times> race_emit list" where
  "race_create activeRaces userId username raceId words c =
     (if \<not> raceCreateSchema c then (activeRaces, [RaceError 2001 ''VALIDATION_ERROR''])
      else
        (let race = new_race raceId words userId username c in
         (activeRaces(raceId \<mapsto> race),
          [RaceCreated race, RaceJoined race (new_player userId username)])))"

definition raceJoinSchema :: "string \<Rightarrow> bool" where
  "raceJoinSchema raceId = (raceId \<noteq> [])"

definition race_join ::
  "registry \<Rightarrow> string \<Rightarrow> string \<Rightarrow> string \<Rightarrow> registry \<times> race_emit list" where
  "race_join activeRaces userId username raceId =
     (if \<not> raceJoinSchema raceId then (activeRaces, [RaceError 2001 ''VALIDATION_ERROR''])
      else
        (case activeRaces raceId of
           None \<Rightarrow> (activeRaces, [RaceError 2001 ''RACE_NOT_FOUND''])
         | Some race \<Rightarrow>
             if real (length (rc_players race)) \<ge> rc_maxPlayers race
             then (activeRaces, [RaceError 2002 ''RACE_FULL''])
             else if rc_status race = Active
             then (activeRaces, [RaceError 2003 ''RACE_STARTED''])
             else if rc_status race = Finished
             then (activeRaces, [RaceError 2004 ''RACE_FINISHED''])
             else
               (case get_player (rc_players race) userId of
                  Some existing \<Rightarrow> (activeRaces, [RaceJoined race existing])
                | None \<Rightarrow>
                    (let player = new_player userId username;
                         race = race\<lparr>rc_players := rc_players race @ [player]\<rparr>;
                         out = [RaceJoined race player, RacePlayerJoined player]
                     in if length (rc_players race) \<ge> 2 \<and> \<not> rc_countdownStarted race
                        then (case startRaceCountdown race of
                                (race, out') \<Rightarrow> (activeRaces(raceId \<mapsto> race), out @ out'))
                        else (activeRaces(raceId \<mapsto> race), out)))))"

definition race_leave :: "registry \<Rightarrow> string \<Rightarrow> string \<Rightarrow> registry \<times> race_emit list" where
  "race_leave activeRaces userId raceId =
     (if raceId = [] then (activeRaces, [RaceError 2001 ''VALIDATION_ERROR''])
      else
        (case activeRaces raceId of
           None \<Rightarrow> (activeRaces, [])
         | Some race \<Rightarrow>
             if has_player (rc_players race) userId then
               (let race = race\<lparr>rc_players := delete_player (rc_players race) userId\<rparr> in
                if length (rc_players race) = 0
                then (activeRaces(raceId := None), [RacePlayerLeft userId])
                else (activeRaces(raceId \<mapsto> race), [RacePlayerLeft userId]))
             else (activeRaces, [])))"

definition progress_of :: "race \<Rightarrow> progress_entry list" where
  "progress_of race =
     map (\<lambda>p. \<lparr>pe_id = p_userId p, pe_username = p_username p, pe_position = p_position p,
                pe_wpm = p_wpm p, pe_accuracy = p_accuracy p,
                pe_rank = (case p_rank p of
                             None \<Rightarrow> int (length (rc_players race)) + 1
                           | Some r \<Rightarrow> if r = 0 then int (length (rc_players race)) + 1 else r),
                pe_isFinished = p_isFinished p\<rparr>)
       (rc_players race)"

definition raceProgressSchema :: "progress_data \<Rightarrow> bool" where
  "raceProgressSchema d =
     (pd_raceId d \<noteq> [] \<and> 0 \<le> pd_position d \<and> 0 \<le> pd_wpm d \<and> 0 \<le> pd_accuracy d
      \<and> pd_accuracy d \<le> 100 \<and> 0 \<le> pd_errors d)"

definition race_progress ::
  "registry \<Rightarrow> string \<Rightarrow> progress_data \<Rightarrow> int \<Rightarrow> registry \<times> race_emit list" where
  "race_progress activeRaces userId d now =
     (if \<not> raceProgressSchema d then (activeRaces, [RaceError 2001 ''VALIDATION_ERROR''])
      else case activeRaces (pd_raceId d) of
        None \<Rightarrow> (activeRaces, [RaceError 2001 ''RACE_NOT_FOUND''])
      | Some race \<Rightarrow>
          (case get_player (rc_players race) userId of
             None \<Rightarrow> (activeRaces, [RaceError 2005 ''NOT_IN_RACE''])
           | Some player \<Rightarrow>
               if rc_status race \<noteq> Active then (activeRaces, [])
               else
                 (let race = race\<lparr>rc_players := update_player (rc_players race) userId
                                (\<lambda>p. p\<lparr>p_position := pd_position d, p_wpm := pd_wpm d,
                                        p_accuracy := pd_accuracy d, p_errors := pd_errors d,
                                        p_isFinished := pd_isFinished d\<rparr>)\<rparr>
                  in if pd_isFinished d \<and> falsy_time (p_finishTime player) then
                       (case rc_startTime race of
                          None \<Rightarrow> (activeRaces(pd_raceId d \<mapsto> race),
                                    [RaceError 5001 ''SERVER_ERROR''])
                        | Some startTime \<Rightarrow>
                            (let finishTime = of_int (now - startTime);
                                 race = race\<lparr>rc_players := update_player (rc_players race) userId
                                          (\<lambda>p. p\<lparr>p_finishTime := Some finishTime\<rparr>)\<rparr>;
                                 finishedPlayers = sort_key finish_key
                                                     (filter p_isFinished (rc_players race));
                                 rank = int (length finishedPlayers);
                                 race = race\<lparr>rc_players := update_player (rc_players race) userId
                                          (\<lambda>p. p\<lparr>p_rank := Some rank\<rparr>)\<rparr>;
                                 finished = RacePlayerFinished userId (Some rank) (pd_wpm d)
                                              (pd_accuracy d) (Some finishTime)
                             in case checkRaceCompletion race now of
                                  (race, out, threw) \<Rightarrow>
                                    (activeRaces(pd_raceId d \<mapsto> race),
                                     finished # out @
                                       (if threw then [RaceError 5001 ''SERVER_ERROR'']
                                        else [RaceProgressUpdate (progress_of race)]))))
                     else (activeRaces(pd_raceId d \<mapsto> race),
                           [RaceProgressUpdate (progress_of race)]))))"

definition raceFinishSchema :: "string \<Rightarrow> race_final_stats \<Rightarrow> bool" where
  "raceFinishSchema raceId fs =
     (raceId \<noteq> [] \<and> 0 \<le> rf_wpm fs \<and> 0 \<le> rf_accuracy fs \<and> rf_accuracy fs \<le> 100
      \<and> (case rf_consistency fs of None \<Rightarrow> True | Some c \<Rightarrow> 0 \<le> c \<and> c \<le> 100)
      \<and> 0 \<le> rf_errors fs \<and> 0 \<le> rf_finishTime fs)"

definition race_finish ::
  "registry \<Rightarrow> string \<Rightarrow> string \<Rightarrow> race_final_stats \<Rightarrow> int \<Rightarrow> registry \<times> race_emit list" where
  "race_finish activeRaces userId raceId finalStats now =
     (if \<not> raceFinishSchema raceId finalStats
      then (activeRaces, [RaceError 2001 ''VALIDATION_ERROR''])
      else
        (case activeRaces raceId of
           None \<Rightarrow> (activeRaces, [RaceError 2001 ''RACE_NOT_FOUND''])
         | Some race \<Rightarrow>
             (case get_player (rc_players race) userId of
                None \<Rightarrow> (activeRaces, [RaceError 2005 ''NOT_IN_RACE''])
              | Some player \<Rightarrow>
                  if \<not> p_isFinished player then
                    (let race = race\<lparr>rc_players := update_player (rc_players race) userId
                                   (\<lambda>p. p\<lparr>p_isFinished := True,
                                           p_finishTime := Some (rf_finishTime finalStats),
                                           p_wpm := rf_wpm finalStats,
                                           p_accuracy := rf_accuracy finalStats,
                                           p_consistency := rf_consistency finalStats,
                                           p_errors := rf_errors finalStats\<rparr>)\<rparr>;
                         finishedPlayers = sort_key finish_key
                                             (filter p_isFinished (rc_players race));
                         rank = findIndex (\<lambda>p. p_userId p = userId) finishedPlayers + 1;
                         race = race\<lparr>rc_players := update_player (rc_players race) userId
                                  (\<lambda>p. p\<lparr>p_rank := Some rank\<rparr>)\<rparr>;
                         finished = RacePlayerFinished userId (Some rank) (rf_wpm finalStats)
                                      (rf_accuracy finalStats) (Some (rf_finishTime finalStats))
                     in case checkRaceCompletion race now of
                          (race, out, threw) \<Rightarrow>
                            (activeRaces(raceId \<mapsto> race),
                             finished # out @
                               (if threw then [RaceError 5001 ''SERVER_ERROR''] else [])))
                  else (activeRaces, []))))"

definition raceMessageSchema :: "string \<Rightarrow> string \<Rightarrow> bool" where
  "raceMessageSchema raceId message =
     (raceId \<noteq> [] \<and> 1 \<le> length message \<and> length message \<le> 200)"

definition race_message ::
  "registry \<Rightarrow> string \<Rightarrow> string \<Rightarrow> string \<Rightarrow> string \<Rightarrow> registry \<times> race_emit list" where
  "race_message activeRaces userId username raceId message =
     (if \<not> raceMessageSchema raceId message
      then (activeRaces, [RaceError 2001 ''VALIDATION_ERROR''])
      else case activeRaces raceId of
        None \<Rightarrow> (activeRaces, [RaceError 2001 ''RACE_NOT_FOUND''])
      | Some race \<Rightarrow>
          if \<not> has_player (rc_players race) userId
          then (activeRaces, [RaceError 2005 ''NOT_IN_RACE''])
          else (activeRaces, [RaceMessageReceived username message]))"

text \<open>
  The race part of \<open>cleanupUserSessions\<close>, run when a socket disconnects: the user
  leaves every race, and a race left empty is deleted.
\<close>

definition cleanup_races :: "registry \<Rightarrow> string \<Rightarrow> registry" where
  "cleanup_races activeRaces userId =
     (\<lambda>raceId. case activeRaces raceId of
        None \<Rightarrow> None
      | Some race \<Rightarrow>
          if has_player (rc_players race) userId then
            (let race = race\<lparr>rc_players := delete_player (rc_players race) userId\<rparr> in
             if length (rc_players race) = 0 then None else Some race)
          else Some race)"

subsection \<open>The engine as a transition system\<close>

datatype race_event =
    Create string string string string race_config
  | Join string string string
  | Leave string string
  | Progress string progress_data int
  | Finish string string race_final_stats int
  | Message string string string string
  | Disconnect string
  | Tick string int
  | Timeout string int

text \<open>
  A timer of a race that is no longer in the registry works on an object that no handler
  can reach; the registry is unchanged then.
\<close>

fun step :: "registry \<Rightarrow> race_event \<Rightarrow> registry \<times> race_emit list" where
  "step reg (Create userId username raceId words c) = race_create reg userId username raceId words c"
| "step reg (Join userId username raceId) = race_join reg userId username raceId"
| "step reg (Leave userId raceId) = race_leave reg userId raceId"
| "step reg (Progress userId d now) = race_progress reg userId d now"
| "step reg (Finish userId raceId finalStats now) = race_finish reg userId raceId finalStats now"
| "step reg (Message userId username raceId message) = race_message reg userId username raceId message"
| "step reg (Disconnect userId) = (cleanup_races reg userId, [])"
| "step reg (Tick raceId now) =
     (case reg raceId of
        None \<Rightarrow> (reg, [])
      | Some race \<Rightarrow> (case countdown_tick race now of (race, out) \<Rightarrow> (reg(raceId \<mapsto> race), out)))"
| "step reg (Timeout raceId now) =
     (case reg raceId of
        None \<Rightarrow> (reg, [])
      | Some race \<Rightarrow> (case race_timeout race now of (race, out) \<Rightarrow> (reg(raceId \<mapsto> race), out)))"

fun run :: "registry \<Rightarrow> race_event list \<Rightarrow> registry" where
  "run reg [] = reg"
| "run reg (e # es) = run (fst (step reg e)) es"

text \<open>The status of one race after each event of a run, starting with the status before it.\<close>

definition status_of :: "registry \<Rightarrow> string \<Rightarrow> race_status option" where
  "status_of reg raceId = map_option rc_status (reg raceId)"

fun status_trace :: "registry \<Rightarrow> string \<Rightarrow> race_event list \<Rightarrow> race_status option list" where
  "status_trace reg raceId [] = [status_of reg raceId]"
| "status_trace reg raceId (e # es) = status_of reg raceId # status_trace (fst (step reg e)) raceId es"

text \<open>The ranks \<open>1, \<dots>, n\<close>, in this order.\<close>

definition ranks_upto :: "nat \<Rightarrow> int option list" where
  "ranks_upto n = map (\<lambda>i. Some (int i)) [1..<Suc n]"

text \<open>The array \<open>[...finishedPlayers, ...unfinishedPlayers]\<close> of \<open>endRace\<close>, ranks assigned.\<close>

definition ranked_players :: "player list \<Rightarrow> player list" where
  "ranked_players players =
     (let finishedPlayers = assign_ranks 0 (sort_key finish_key (filter p_isFinished players));
          unfinishedPlayers = assign_ranks (length finishedPlayers)
                                (filter (\<lambda>p. \<not> p_isFinished p) players)
      in finishedPlayers @ unfinishedPlayers)"

subsection \<open>A concrete race\<close>

text \<open>
  A words race for two players: \<open>u1\<close> creates it, \<open>u2\<close> joins, the countdown
  interval fires six times (5, 4, 3, 2, 1, start).
\<close>

definition duel :: race_config where
  "duel = \<lparr>cfg_name = ''duel'', cfg_mode = WordsMode, cfg_duration = None,
            cfg_wordCount = Some 10, cfg_maxPlayers = Some 2\<rparr>"

definition ev_create :: race_event where
  "ev_create = Create ''u1'' ''ann'' ''r1'' ''the of and'' duel"

definition ev_join :: race_event where
  "ev_join = Join ''u2'' ''bob'' ''r1''"

definition six_ticks :: "race_event list" where
  "six_ticks = map (Tick ''r1'') [1000, 2000, 3000, 4000, 5000, 6000]"

definition reg_waiting :: registry where
  "reg_waiting = run Map.empty [ev_create]"

definition reg_countdown :: registry where
  "reg_countdown = run reg_waiting [ev_join]"

definition reg_active :: registry where
  "reg_active = run reg_countdown six_ticks"

definition race_waiting :: race where
  "race_waiting = new_race ''r1'' ''the of and'' ''u1'' ''ann'' duel"

definition race_countdown :: race where
  "race_countdown = race_waiting
     \<lparr>rc_status := Countdown, rc_players := [new_player ''u1'' ''ann'', new_player ''u2'' ''bob''],
      rc_countdownStarted := True, rc_countdown := Some 5\<rparr>"

definition race_active :: race where
  "race_active = race_countdown
     \<lparr>rc_status := Active, rc_startTime := Some 6000, rc_countdown := None,
      rc_timeoutArmed := True\<rparr>"

definition finish_stats :: "real \<Rightarrow> race_final_stats" where
  "finish_stats t = \<lparr>rf_wpm = 60, rf_accuracy = 100, rf_consistency = None, rf_errors = 0,
                     rf_finishTime = t\<rparr>"

definition progress_flag :: "bool \<Rightarrow> progress_data" where
  "progress_flag b = \<lparr>pd_raceId = ''r1'', pd_position = 10, pd_wpm = 60, pd_accuracy = 100,
                      pd_errors = 0, pd_isFinished = b\<rparr>"

text \<open>The finished flag and the finish time of one player after each event of a run.\<close>

definition finish_state :: "registry \<Rightarrow> string \<Rightarrow> string \<Rightarrow> (bool \<times> real option) option" where
  "finish_state reg raceId userId =
     (case reg raceId of
        None \<Rightarrow> None
      | Some race \<Rightarrow> map_option (\<lambda>p. (p_isFinished p, p_finishTime p))
                       (get_player (rc_players race) userId))"

fun finish_trace ::
  "registry \<Rightarrow> string \<Rightarrow> string \<Rightarrow> race_event list \<Rightarrow> (bool \<times> real option) option list" where
  "finish_trace reg raceId userId [] = [finish_state reg raceId userId]"
| "finish_trace reg raceId userId (e # es) =
     finish_state reg raceId userId # finish_trace (fst (step reg e)) raceId userId es"

text \<open>Whether an event is the creation of the race with a given id.\<close>

fun creates :: "string \<Rightarrow> race_event \<Rightarrow> bool" where
  "creates raceId (Create userId username raceId' words c) = (raceId' = raceId)"
| "creates raceId e = False"


text \<open>The roster of every race in the registry is a map: no user id occurs twice.\<close>

definition rosters_distinct :: "registry \<Rightarrow> bool" where
  "rosters_distinct reg =
     (\<forall>raceId race. reg raceId = Some race \<longrightarrow> distinct (map p_userId (rc_players race)))"

text \<open>The registry invariant: no race in the registry has an empty roster.\<close>

definition rosters_nonempty :: "registry \<Rightarrow> bool" where
  "rosters_nonempty reg = (\<forall>raceId race. reg raceId = Some race \<longrightarrow> rc_players race \<noteq> [])"

text \<open>
  The active race after \<open>u2\<close> has left, a third user, and a firing of the countdown
  interval, which outlives the race.
\<close>

definition reg_solo :: registry where
  "reg_solo = fst (race_leave reg_active ''u2'' ''r1'')"

definition race_solo :: race where
  "race_solo = race_active\<lparr>rc_players := [new_player ''u1'' ''ann'']\<rparr>"


definition stale_timers :: "race_event list" where
  "stale_timers = [Tick ''r1'' 7000, Timeout ''r1'' 306000]"

text \<open>
  Both players of the concrete race send \<open>race:finish\<close> during the countdown, and the
  countdown interval keeps firing.
\<close>

definition early_finish :: "race_event list" where
  "early_finish =
     [ev_create, ev_join, Tick ''r1'' 1000, Tick ''r1'' 2000,
      Finish ''u1'' ''r1'' (finish_stats 10) 2500, Finish ''u2'' ''r1'' (finish_stats 20) 2600,
      Tick ''r1'' 3000, Tick ''r1'' 4000, Tick ''r1'' 5000, Tick ''r1'' 6000]"

text \<open>
  In the active concrete race, \<open>u1\<close> reports progress as finished, then as not
  finished, then sends \<open>race:finish\<close>.
\<close>

definition unfinish :: "race_event list" where
  "unfinish =
     [Progress ''u1'' (progress_flag True) 7000, Progress ''u1'' (progress_flag False) 8000,
      Finish ''u1'' ''r1'' (finish_stats 99) 9000]"

section \<open>Properties of the statistics\<close>

lemma windows_loop_step:
  "windowStart < timeElapsed \<Longrightarrow>
   windows_loop keystrokes timeElapsed windowStart =
     (let windowEnd = windowStart + windowSize;
          windowKeystrokes = filter (\<lambda>k. k_timestamp k \<ge> of_int windowStart
                                        \<and> k_timestamp k < of_int windowEnd) keystrokes
      in (if length windowKeystrokes > 0
          then [(real (length windowKeystrokes) / 5) / (of_int windowSize / (1000 * 60))]
          else [])
         @ windows_loop keystrokes timeElapsed windowEnd)"
  by (subst windows_loop.simps) simp

lemma windows_loop_stop:
  "\<not> windowStart < timeElapsed \<Longrightarrow> windows_loop keystrokes timeElapsed windowStart = []"
  by (subst windows_loop.simps) simp















section \<open>Properties of the rate limiter\<close>

lemma floor_div_50:
  "\<lfloor>real_of_int e / (real_of_int 1000 / real_of_int 20)\<rfloor> = e div 50"
proof -
  have "real_of_int 1000 / real_of_int 20 = real_of_int 50" by simp
  then show ?thesis by (simp only: floor_divide_of_int_eq)
qed

lemma checkRate_other:
  "v \<noteq> u \<Longrightarrow> snd (checkKeystrokeRate B v now) (Keystroke, u) = B (Keystroke, u)"
  by (simp add: checkKeystrokeRate_def checkRate_def Let_def)

lemma checkRate_allowed:
  "r_allowed (fst (checkKeystrokeRate B u now)) = (ks_tokens (B (Keystroke, u)) now > 0)"
  unfolding checkKeystrokeRate_def checkRate_def Let_def
  apply (simp only: limits.simps limit_config.simps floor_div_50)
  apply (simp add: ks_tokens_def split: option.splits)
  done

lemma checkRate_bucket:
  "\<exists>b. snd (checkKeystrokeRate B u now) (Keystroke, u) = Some b \<and>
     b_tokens b = (if ks_tokens (B (Keystroke, u)) now > 0 then ks_tokens (B (Keystroke, u)) now - 1 else ks_tokens (B (Keystroke, u)) now)
   \<and> b_lastRefill b = ks_last (B (Keystroke, u)) now"
  unfolding checkKeystrokeRate_def checkRate_def Let_def
  apply (simp only: limits.simps limit_config.simps floor_div_50)
  apply (simp add: ks_tokens_def ks_last_def split: option.splits)
  done

lemma div_superadd: "(x::int) div 50 + y div 50 \<le> (x + y) div 50"
  by linarith

lemma potential_step:
  fixes k L t W :: int
  assumes "0 \<le> k" "L \<le> t"
  defines "a \<equiv> (t - L) div 50"
  defines "k1 \<equiv> (if a > 0 then min 20 (k + a) else k)"
  defines "k' \<equiv> (if k1 > 0 then k1 - 1 else k1)"
  defines "L' \<equiv> (if a > 0 then t else L)"
  defines "c \<equiv> (if W \<le> t \<and> t < W + 1000 \<and> k1 > 0 then 1 else 0)"
  shows "c + max 0 (k' + (W + 999 - L') div 50) \<le> max 0 (k + (W + 999 - L) div 50)"
    and "0 \<le> k'" and "L' \<le> t"
proof -
  have sa: "a + (W + 999 - t) div 50 \<le> (W + 999 - L) div 50"
    unfolding a_def using div_superadd [of "t - L" "W + 999 - t"] by simp
  have a0: "0 \<le> a" unfolding a_def using assms(2) by simp
  have w: "W \<le> t \<and> t < W + 1000 \<Longrightarrow> 0 \<le> (W + 999 - t) div 50" by linarith
  have m: "L \<le> t \<Longrightarrow> t < W + 1000 \<Longrightarrow> 0 \<le> (W + 999 - L) div 50" by linarith
  show "0 \<le> k'" using assms(1) a0 unfolding k'_def k1_def by (simp add: min_def)
  show "L' \<le> t" using assms(2) unfolding L'_def by simp
  show "c + max 0 (k' + (W + 999 - L') div 50) \<le> max 0 (k + (W + 999 - L) div 50)"
  proof (cases "a > 0")
    case True
    then have "k1 = min 20 (k + a)" "L' = t" by (simp_all add: k1_def L'_def)
    then show ?thesis using sa a0 w m assms(1,2) True unfolding k'_def c_def
      by (simp add: min_def max_def)
  next
    case False
    then have "k1 = k" "L' = L" by (simp_all add: k1_def L'_def)
    then show ?thesis using a0 w m assms(1,2) unfolding k'_def c_def
      by (simp add: min_def max_def)
  qed
qed

lemma first_step:
  fixes k L t W :: int
  assumes "0 \<le> k" "k \<le> 19" "L \<le> t" "W \<le> t"
  defines "a \<equiv> (t - L) div 50"
  defines "k1 \<equiv> (if a > 0 then min 20 (k + a) else k)"
  defines "k' \<equiv> (if k1 > 0 then k1 - 1 else k1)"
  defines "L' \<equiv> (if a > 0 then t else L)"
  defines "c \<equiv> (if W \<le> t \<and> t < W + 1000 \<and> k1 > 0 then 1 else 0)"
  shows "c + max 0 (k' + (W + 999 - L') div 50) \<le> 39"
proof (cases "a > 0")
  case True
  then have e: "k1 = min 20 (k + a)" "L' = t" by (simp_all add: k1_def L'_def)
  have "(W + 999 - t) div 50 \<le> 19" using assms(4) by linarith
  then show ?thesis using e assms(1,2) True unfolding k'_def c_def
    by (simp add: min_def max_def)
next
  case False
  then have e: "k1 = k" "L' = L" by (simp_all add: k1_def L'_def)
  have "t - L < 50" using False assms(3) unfolding a_def by linarith
  then have "(W + 999 - L) div 50 \<le> 20" using assms(4) by linarith
  then show ?thesis using e assms(1,2) unfolding k'_def c_def
    by (simp add: min_def max_def)
qed

lemma before_step:
  fixes k L t :: int
  assumes "0 \<le> k" "k \<le> 19" "L \<le> t"
  defines "a \<equiv> (t - L) div 50"
  defines "k1 \<equiv> (if a > 0 then min 20 (k + a) else k)"
  defines "k' \<equiv> (if k1 > 0 then k1 - 1 else k1)"
  defines "L' \<equiv> (if a > 0 then t else L)"
  shows "0 \<le> k'" and "k' \<le> 19" and "L' \<le> t"
  using assms(1-3) unfolding a_def k1_def k'_def L'_def by (simp_all add: min_def)

lemma accepted_in_window_potential:
  "sorted (map snd evs) \<Longrightarrow> B (Keystroke, u) = Some b \<Longrightarrow> 0 \<le> b_tokens b \<Longrightarrow>
   \<forall>e \<in> set evs. b_lastRefill b \<le> snd e \<Longrightarrow>
   int (accepted_in_window B u W evs) \<le> max 0 (b_tokens b + (W + 999 - b_lastRefill b) div 50)"
proof (induction evs arbitrary: B b)
  case Nil
  then show ?case by simp
next
  case (Cons e evs)
  obtain v t where e: "e = (v, t)" by (cases e)
  obtain res B' where cr: "checkKeystrokeRate B v t = (res, B')" by (cases "checkKeystrokeRate B v t")
  have sorted': "sorted (map snd evs)" using Cons.prems(1) by simp
  have ge_t: "\<forall>e' \<in> set evs. t \<le> snd e'" using Cons.prems(1) e by auto
  have Lt: "b_lastRefill b \<le> t" using Cons.prems(4) e by simp
  show ?case
  proof (cases "v = u")
    case False
    then have "B' (Keystroke, u) = Some b"
      using checkRate_other [of v u B t] cr Cons.prems(2) by simp
    moreover have "\<forall>e' \<in> set evs. b_lastRefill b \<le> snd e'" using Cons.prems(4) by simp
    ultimately have "int (accepted_in_window B' u W evs)
        \<le> max 0 (b_tokens b + (W + 999 - b_lastRefill b) div 50)"
      using Cons.IH sorted' Cons.prems(3) by blast
    then show ?thesis using False e cr by simp
  next
    case True
    obtain b' where b': "B' (Keystroke, u) = Some b'"
      "b_tokens b' = (if ks_tokens (B (Keystroke, u)) t > 0 then ks_tokens (B (Keystroke, u)) t - 1
                      else ks_tokens (B (Keystroke, u)) t)"
      "b_lastRefill b' = ks_last (B (Keystroke, u)) t"
      using checkRate_bucket [of B u t] cr True by auto
    have al: "r_allowed res = (ks_tokens (B (Keystroke, u)) t > 0)"
      using checkRate_allowed [of B u t] cr True by simp
    have kt: "ks_tokens (B (Keystroke, u)) t =
        (if (t - b_lastRefill b) div 50 > 0 then min 20 (b_tokens b + (t - b_lastRefill b) div 50)
         else b_tokens b)"
      by (simp add: ks_tokens_def Cons.prems(2))
    have kl: "ks_last (B (Keystroke, u)) t =
        (if (t - b_lastRefill b) div 50 > 0 then t else b_lastRefill b)"
      by (simp add: ks_last_def Cons.prems(2))
    have ps1: "(if W \<le> t \<and> t < W + 1000 \<and> ks_tokens (B (Keystroke, u)) t > 0 then 1 else 0)
        + max 0 (b_tokens b' + (W + 999 - b_lastRefill b') div 50)
        \<le> max 0 (b_tokens b + (W + 999 - b_lastRefill b) div 50)"
      unfolding b'(2,3) kt kl by (rule potential_step(1) [OF Cons.prems(3) Lt])
    have ps2: "0 \<le> b_tokens b'"
      unfolding b'(2,3) kt kl by (rule potential_step(2) [OF Cons.prems(3) Lt])
    have ps3: "b_lastRefill b' \<le> t"
      unfolding b'(2,3) kt kl by (rule potential_step(3) [OF Cons.prems(3) Lt])
    have "\<forall>e' \<in> set evs. b_lastRefill b' \<le> snd e'" using ge_t ps3 by force
    then have IH: "int (accepted_in_window B' u W evs)
        \<le> max 0 (b_tokens b' + (W + 999 - b_lastRefill b') div 50)"
      using Cons.IH [of B' b'] sorted' b'(1) ps2 by blast
    have "int (accepted_in_window B u W (e # evs)) =
        (if W \<le> t \<and> t < W + 1000 \<and> ks_tokens (B (Keystroke, u)) t > 0 then 1 else 0)
        + int (accepted_in_window B' u W evs)"
      using e cr True al by simp
    then show ?thesis using IH ps1 by linarith
  qed
qed

lemma accepted_in_window_bound:
  "sorted (map snd evs) \<Longrightarrow> bucket_ok (B (Keystroke, u)) evs \<Longrightarrow>
   accepted_in_window B u W evs \<le> 39"
proof (induction evs arbitrary: B)
  case Nil
  then show ?case by simp
next
  case (Cons e evs)
  obtain v t where e: "e = (v, t)" by (cases e)
  obtain res B' where cr: "checkKeystrokeRate B v t = (res, B')" by (cases "checkKeystrokeRate B v t")
  have sorted': "sorted (map snd evs)" using Cons.prems(1) by simp
  have ge_t: "\<forall>e' \<in> set evs. t \<le> snd e'" using Cons.prems(1) e by auto
  show ?case
  proof (cases "v = u")
    case False
    then have "B' (Keystroke, u) = B (Keystroke, u)"
      using checkRate_other [of v u B t] cr by simp
    then have "bucket_ok (B' (Keystroke, u)) evs"
      using Cons.prems(2) by (auto simp: bucket_ok_def split: option.splits)
    then have "accepted_in_window B' u W evs \<le> 39" using Cons.IH sorted' by blast
    then show ?thesis using False e cr by simp
  next
    case True
    obtain b' where b': "B' (Keystroke, u) = Some b'"
      "b_tokens b' = (if ks_tokens (B (Keystroke, u)) t > 0 then ks_tokens (B (Keystroke, u)) t - 1
                      else ks_tokens (B (Keystroke, u)) t)"
      "b_lastRefill b' = ks_last (B (Keystroke, u)) t"
      using checkRate_bucket [of B u t] cr True by auto
    have al: "r_allowed res = (ks_tokens (B (Keystroke, u)) t > 0)"
      using checkRate_allowed [of B u t] cr True by simp
    have cnt: "int (accepted_in_window B u W (e # evs)) =
        (if W \<le> t \<and> t < W + 1000 \<and> ks_tokens (B (Keystroke, u)) t > 0 then 1 else 0)
        + int (accepted_in_window B' u W evs)"
      using e cr True al by simp
    have inv': "0 \<le> b_tokens b' \<and> b_tokens b' \<le> 19 \<and> b_lastRefill b' \<le> t"
    proof (cases "B (Keystroke, u)")
      case None
      then show ?thesis by (simp add: b' ks_tokens_def ks_last_def)
    next
      case (Some b)
      then have p: "0 \<le> b_tokens b" "b_tokens b \<le> 19" "b_lastRefill b \<le> t"
        using Cons.prems(2) e by (auto simp: bucket_ok_def)
      have kt: "ks_tokens (B (Keystroke, u)) t =
          (if (t - b_lastRefill b) div 50 > 0 then min 20 (b_tokens b + (t - b_lastRefill b) div 50)
           else b_tokens b)"
        by (simp add: ks_tokens_def Some)
      have kl: "ks_last (B (Keystroke, u)) t =
          (if (t - b_lastRefill b) div 50 > 0 then t else b_lastRefill b)"
        by (simp add: ks_last_def Some)
      show ?thesis unfolding b'(2,3) kt kl using before_step [OF p] by blast
    qed
    have later: "\<forall>e' \<in> set evs. b_lastRefill b' \<le> snd e'" using ge_t inv' by force
    show ?thesis
    proof (cases "W \<le> t")
      case False
      have "bucket_ok (B' (Keystroke, u)) evs"
        using inv' later by (simp add: bucket_ok_def b'(1) list_all_iff)
      then have "accepted_in_window B' u W evs \<le> 39" using Cons.IH sorted' by blast
      then show ?thesis using cnt False by simp
    next
      case Wt: True
      have pot: "int (accepted_in_window B' u W evs)
          \<le> max 0 (b_tokens b' + (W + 999 - b_lastRefill b') div 50)"
        using accepted_in_window_potential [of evs B' u b' W] sorted' b'(1) later inv' by blast
      have "(if W \<le> t \<and> t < W + 1000 \<and> ks_tokens (B (Keystroke, u)) t > 0 then 1 else 0)
          + max 0 (b_tokens b' + (W + 999 - b_lastRefill b') div 50) \<le> 39"
      proof (cases "B (Keystroke, u)")
        case None
        have "(W + 999 - t) div 50 \<le> 19" using Wt by linarith
        then show ?thesis using None by (simp add: b' ks_tokens_def ks_last_def)
      next
        case (Some b)
        then have p: "0 \<le> b_tokens b" "b_tokens b \<le> 19" "b_lastRefill b \<le> t"
          using Cons.prems(2) e by (auto simp: bucket_ok_def)
        have kt: "ks_tokens (B (Keystroke, u)) t =
            (if (t - b_lastRefill b) div 50 > 0 then min 20 (b_tokens b + (t - b_lastRefill b) div 50)
             else b_tokens b)"
          by (simp add: ks_tokens_def Some)
        have kl: "ks_last (B (Keystroke, u)) t =
            (if (t - b_lastRefill b) div 50 > 0 then t else b_lastRefill b)"
          by (simp add: ks_last_def Some)
        show ?thesis unfolding b'(2,3) kt kl by (rule first_step [OF p Wt])
      qed
      then show ?thesis using cnt pot by linarith
    qed
  qed
qed

section \<open>Properties of the typing-test handlers\<close>

lemma refused_keystroke:
  assumes "\<not> r_allowed (fst (checkKeystrokeRate (sv_buckets sv) userId now))"
  shows "snd (test_keystroke sv userId d now)
           = [emitRateLimitError (r_retryAfter (fst (checkKeystrokeRate (sv_buckets sv) userId now)))]"
    and "sv_sessions (fst (test_keystroke sv userId d now)) = sv_sessions sv"
  using assms
  by (cases "checkKeystrokeRate (sv_buckets sv) userId now"; simp add: test_keystroke_def Let_def)+

lemma handler_buckets:
  "sv_buckets (fst (test_keystroke sv userId d now))
     = snd (checkKeystrokeRate (sv_buckets sv) userId now)"
  by (cases "checkKeystrokeRate (sv_buckets sv) userId now")
     (simp add: test_keystroke_def Let_def split: option.splits prod.splits)

text \<open>
  C5, as stated, fails: the bucket starts full and is refilled at one token per 50 ms,
  so a burst of twenty events followed by one more 50 ms later has all 21 events accepted
  inside one second.
\<close>

theorem keystroke_window_counterexample:
  "accepted_in_window Map.empty ''u1'' 0 burst_then_one = 21"
  by (simp add: burst_then_one_def checkKeystrokeRate_def checkRate_def Let_def
        eval_nat_numeral)

text \<open>
  C5 (amended): for every identity and every 1-second window \<open>[W, W + 1000)\<close>, the
  number of \<open>test:keystroke\<close> events accepted by the rate limiter is at most 39 (a
  bucket of at most 20 tokens and at most 19 tokens refilled at one per 50 ms), for
  events in time order and as long as the limiter's cleanup does not evict the bucket;
  an event that the limiter refuses receives code 4001 \<open>RATE_LIMITED\<close> and leaves
  every keystroke log unchanged; the handler's bucket store is the limiter's.
\<close>

theorem keystroke_rate_window:
  "(sorted (map snd evs) \<longrightarrow> accepted_in_window Map.empty u W evs \<le> 39)
   \<and> (\<not> r_allowed (fst (checkKeystrokeRate (sv_buckets sv) userId now)) \<longrightarrow>
        (\<exists>retry. snd (test_keystroke sv userId d now) = [TestError 4001 ''RATE_LIMITED'' retry])
        \<and> sv_sessions (fst (test_keystroke sv userId d now)) = sv_sessions sv)
   \<and> sv_buckets (fst (test_keystroke sv userId d now))
        = snd (checkKeystrokeRate (sv_buckets sv) userId now)"
proof (intro conjI impI)
  assume "sorted (map snd evs)"
  then show "accepted_in_window Map.empty u W evs \<le> 39"
    by (rule accepted_in_window_bound) (simp add: bucket_ok_def)
next
  assume "\<not> r_allowed (fst (checkKeystrokeRate (sv_buckets sv) userId now))"
  then show "\<exists>retry. snd (test_keystroke sv userId d now) = [TestError 4001 ''RATE_LIMITED'' retry]"
    by (simp add: refused_keystroke(1) emitRateLimitError_def)
next
  assume "\<not> r_allowed (fst (checkKeystrokeRate (sv_buckets sv) userId now))"
  then show "sv_sessions (fst (test_keystroke sv userId d now)) = sv_sessions sv"
    by (rule refused_keystroke(2))
next
  show "sv_buckets (fst (test_keystroke sv userId d now))
          = snd (checkKeystrokeRate (sv_buckets sv) userId now)"
    by (rule handler_buckets)
qed

text \<open>The bound 39 is reached.\<close>

lemma keystroke_window_bound_reached:
  "accepted_in_window Map.empty ''u1'' 0 full_second = 39"
  by (simp add: full_second_def checkKeystrokeRate_def checkRate_def Let_def
        eval_nat_numeral upt_rec)

theorem keystroke_rate_window_witness:
  "sorted (map snd burst_then_one)
   \<and> accepted_in_window Map.empty ''u1'' 0 burst_then_one \<le> 39
   \<and> \<not> r_allowed (fst (checkKeystrokeRate (sv_buckets drained) ''u1'' 20))
   \<and> snd (test_keystroke drained ''u1'' (key_event 20 True) 20)
        = [TestError 4001 ''RATE_LIMITED'' (Some 1)]
   \<and> sv_sessions (fst (test_keystroke drained ''u1'' (key_event 20 True) 20))
        = sv_sessions drained"
proof -
  have s: "sorted (map snd burst_then_one)"
    by (simp add: burst_then_one_def sorted_append)
  have r: "\<not> r_allowed (fst (checkKeystrokeRate (sv_buckets drained) ''u1'' 20))"
    by (simp add: drained_def checkKeystrokeRate_def checkRate_def Let_def)
  have e: "snd (test_keystroke drained ''u1'' (key_event 20 True) 20)
             = [TestError 4001 ''RATE_LIMITED'' (Some 1)]"
    by (simp add: drained_def test_keystroke_def checkKeystrokeRate_def checkRate_def Let_def
          emitRateLimitError_def)
  show ?thesis
    using keystroke_rate_window [of burst_then_one "''u1''" 0 drained "''u1''" 20 "key_event 20 True"]
      s r e
    by simp
qed

lemma stats_short: "length ks < 10 \<Longrightarrow> calculateConsistency ks t = 0"
  by (simp add: calculateConsistency_def)

lemmas test_run_defs = two_keys_def test_keystroke_def server0_def key_event_def
  new_test_session_def checkKeystrokeRate_def checkRate_def Let_def keystrokeSchema_def
  calculateTypingStats_def stats_short js_round_def stored_keystroke_def session_start_def
  test_completed_def testCompletedSchema_def client_stats_def completeTestSession_def

lemma flt_ts:
  "map k_timestamp ks = map k_timestamp ks' \<Longrightarrow>
   length (filter (\<lambda>k. P (k_timestamp k)) ks) = length (filter (\<lambda>k. P (k_timestamp k)) ks')"
proof (induction ks arbitrary: ks')
  case Nil
  then show ?case by simp
next
  case (Cons x xs)
  then obtain y ys where ks': "ks' = y # ys" by (cases ks') auto
  with Cons.prems have "k_timestamp x = k_timestamp y" "map k_timestamp xs = map k_timestamp ys"
    by simp_all
  with Cons.IH [of ys] ks' show ?case by simp
qed

lemma windows_loop_timestamps:
  "map k_timestamp ks = map k_timestamp ks' \<Longrightarrow> windows_loop ks t w = windows_loop ks' t w"
proof (induction ks t w rule: windows_loop.induct)
  case (1 keystrokes timeElapsed windowStart)
  show ?case
  proof (cases "windowStart < timeElapsed")
    case True
    have rec: "windows_loop keystrokes timeElapsed (windowStart + windowSize)
             = windows_loop ks' timeElapsed (windowStart + windowSize)"
      using 1(1) [OF True refl refl] 1(2) by simp
    have fl: "length (filter (\<lambda>k. of_int windowStart \<le> k_timestamp k
                  \<and> k_timestamp k < of_int (windowStart + windowSize)) keystrokes)
            = length (filter (\<lambda>k. of_int windowStart \<le> k_timestamp k
                  \<and> k_timestamp k < of_int (windowStart + windowSize)) ks')"
      by (rule flt_ts [OF 1(2), of "\<lambda>x. of_int windowStart \<le> x \<and> x < of_int (windowStart + windowSize)"])
    show ?thesis
      apply (subst windows_loop_step [OF True])
      apply (subst windows_loop_step [OF True])
      apply (simp only: Let_def fl rec)
      done
  next
    case False
    then show ?thesis by (simp add: windows_loop_stop)
  qed
qed

lemma timing_only:
  assumes "map k_timestamp ks = map k_timestamp ks'"
  shows "s_wpm (calculateTypingStats ks tx t) = s_wpm (calculateTypingStats ks' tx' t)"
    and "s_consistency (calculateTypingStats ks tx t)
           = s_consistency (calculateTypingStats ks' tx' t)"
    and "s_position (calculateTypingStats ks tx t)
           = s_position (calculateTypingStats ks' tx' t)"
proof -
  have len: "length ks = length ks'" using assms by (metis length_map)
  then have emp: "(ks = []) = (ks' = [])" by auto
  have cons: "calculateConsistency ks t = calculateConsistency ks' t"
    by (simp add: calculateConsistency_def len windows_loop_timestamps [OF assms])
  show "s_wpm (calculateTypingStats ks tx t) = s_wpm (calculateTypingStats ks' tx' t)"
    by (simp add: calculateTypingStats_def Let_def len emp)
  show "s_consistency (calculateTypingStats ks tx t)
          = s_consistency (calculateTypingStats ks' tx' t)"
    by (simp add: calculateTypingStats_def Let_def len emp cons)
  show "s_position (calculateTypingStats ks tx t)
          = s_position (calculateTypingStats ks' tx' t)"
    by (simp add: calculateTypingStats_def Let_def len emp)
qed

lemma keystroke_publishes:
  assumes "r_allowed (fst (checkKeystrokeRate (sv_buckets sv) userId now))"
    and "keystrokeSchema d" and "sv_sessions sv (kd_testId d) = Some ts"
    and "ts_userId ts = userId" and "\<not> ts_isCompleted ts"
  shows "hd (snd (test_keystroke sv userId d now)) =
     StatsUpdate (kd_testId d)
       (calculateTypingStats (ts_keystrokes ts @ [stored_keystroke d now]) (ts_words ts)
          (now - session_start ts now))
       (now - session_start ts now)"
  using assms
  by (cases "checkKeystrokeRate (sv_buckets sv) userId now")
     (simp add: test_keystroke_def Let_def split: prod.splits)

lemma complete_publishes_computed:
  assumes "\<not> ts_isCompleted ts" and "ts_startTime ts = Some st"
  shows "\<exists>r. snd (completeTestSession userId ts None now)
             = [TestResult r, FriendTestCompleted userId (tr_wpm r) (tr_accuracy r) r]
          \<and> tr_wpm r = of_int (s_wpm (calculateTypingStats (ts_keystrokes ts) (ts_words ts) (now - st)))
          \<and> tr_accuracy r = of_int (s_accuracy (calculateTypingStats (ts_keystrokes ts) (ts_words ts) (now - st)))
          \<and> tr_consistency r = of_int (s_consistency (calculateTypingStats (ts_keystrokes ts) (ts_words ts) (now - st)))
          \<and> tr_errors r = of_int (s_errors (calculateTypingStats (ts_keystrokes ts) (ts_words ts) (now - st)))"
  using assms by (simp add: completeTestSession_def Let_def)

lemma complete_publishes_provided:
  assumes "\<not> ts_isCompleted ts" and "ts_startTime ts = Some st"
  shows "\<exists>r. snd (completeTestSession userId ts (Some fs) now)
             = [TestResult r, FriendTestCompleted userId (tr_wpm r) (tr_accuracy r) r]
          \<and> tr_wpm r = fs_wpm fs \<and> tr_accuracy r = fs_accuracy fs \<and> tr_errors r = fs_errors fs
          \<and> tr_consistency r = (case fs_consistency fs of None \<Rightarrow> 0 | Some c \<Rightarrow> c)"
  using assms by (simp add: completeTestSession_def Let_def)

text \<open>
  C1, as stated, fails. Two runs with the same keys at the same times, one with every
  client verdict \<open>correct = true\<close> and one with \<open>false\<close>, publish accuracy 100
  and 0; and completing the same session through \<open>test:completed\<close> with
  \<open>finalStats.wpm\<close> 300 or 10 publishes a result with wpm 300 or 10.
\<close>

theorem client_fields_counterexample:
  "snd (two_keys True) =
     [StatsUpdate ''t1'' \<lparr>s_wpm = 24, s_accuracy = 100, s_consistency = 0, s_errors = 0,
        s_correctChars = 2, s_incorrectChars = 0, s_position = Some 2\<rparr> 1000]
   \<and> snd (two_keys False) =
     [StatsUpdate ''t1'' \<lparr>s_wpm = 24, s_accuracy = 0, s_consistency = 0, s_errors = 2,
        s_correctChars = 0, s_incorrectChars = 2, s_position = Some 2\<rparr> 1000]
   \<and> map tr_wpm (map (\<lambda>e. case e of TestResult r \<Rightarrow> r)
        (take 1 (snd (test_completed (fst (two_keys True)) ''u1'' ''t1'' (client_stats 300) 2000))))
       = [300]
   \<and> map tr_wpm (map (\<lambda>e. case e of TestResult r \<Rightarrow> r)
        (take 1 (snd (test_completed (fst (two_keys True)) ''u1'' ''t1'' (client_stats 10) 2000))))
       = [10]"
  by (simp add: test_run_defs)

text \<open>
  C1 (amended): the metric values published in \<open>test:stats_update\<close>, and in a
  \<open>test:result\<close> produced by automatic completion, are \<open>calculateTypingStats\<close> of
  the session's stored keystroke log and the elapsed time, where the log stores the
  client's \<open>correct\<close> flag as sent. Of these values wpm, consistency and position
  depend on the keystroke timestamps only; accuracy, errors and the correct/incorrect
  counts are counted from the stored client flags. A \<open>test:result\<close> produced by
  \<open>test:completed\<close> publishes the wpm, accuracy, errors and consistency (or 0) of
  the client's \<open>finalStats\<close>.
\<close>

theorem published_metrics_sources:
  "(r_allowed (fst (checkKeystrokeRate (sv_buckets sv) userId now)) \<and> keystrokeSchema d
      \<and> sv_sessions sv (kd_testId d) = Some ts \<and> ts_userId ts = userId \<and> \<not> ts_isCompleted ts
    \<longrightarrow> hd (snd (test_keystroke sv userId d now)) =
          StatsUpdate (kd_testId d)
            (calculateTypingStats (ts_keystrokes ts @ [stored_keystroke d now]) (ts_words ts)
               (now - session_start ts now))
            (now - session_start ts now))
   \<and> (map k_timestamp ks = map k_timestamp ks'
    \<longrightarrow> s_wpm (calculateTypingStats ks tx t) = s_wpm (calculateTypingStats ks' tx' t)
        \<and> s_consistency (calculateTypingStats ks tx t)
            = s_consistency (calculateTypingStats ks' tx' t)
        \<and> s_position (calculateTypingStats ks tx t)
            = s_position (calculateTypingStats ks' tx' t))
   \<and> (\<not> ts_isCompleted ts \<and> ts_startTime ts = Some st
    \<longrightarrow> (\<exists>r. snd (completeTestSession userId ts None now)
               = [TestResult r, FriendTestCompleted userId (tr_wpm r) (tr_accuracy r) r]
            \<and> tr_wpm r = of_int (s_wpm (calculateTypingStats (ts_keystrokes ts) (ts_words ts) (now - st)))
            \<and> tr_accuracy r = of_int (s_accuracy (calculateTypingStats (ts_keystrokes ts) (ts_words ts) (now - st)))
            \<and> tr_consistency r = of_int (s_consistency (calculateTypingStats (ts_keystrokes ts) (ts_words ts) (now - st)))
            \<and> tr_errors r = of_int (s_errors (calculateTypingStats (ts_keystrokes ts) (ts_words ts) (now - st))))
        \<and> (\<exists>r. snd (completeTestSession userId ts (Some fs) now)
               = [TestResult r, FriendTestCompleted userId (tr_wpm r) (tr_accuracy r) r]
            \<and> tr_wpm r = fs_wpm fs \<and> tr_accuracy r = fs_accuracy fs \<and> tr_errors r = fs_errors fs
            \<and> tr_consistency r = (case fs_consistency fs of None \<Rightarrow> 0 | Some c \<Rightarrow> c)))"
proof (intro conjI impI; (elim conjE)?)
  assume "r_allowed (fst (checkKeystrokeRate (sv_buckets sv) userId now))"
    "keystrokeSchema d" "sv_sessions sv (kd_testId d) = Some ts"
    "ts_userId ts = userId" "\<not> ts_isCompleted ts"
  then show "hd (snd (test_keystroke sv userId d now)) =
      StatsUpdate (kd_testId d)
        (calculateTypingStats (ts_keystrokes ts @ [stored_keystroke d now]) (ts_words ts)
           (now - session_start ts now))
        (now - session_start ts now)"
    by (rule keystroke_publishes)
next
  assume "map k_timestamp ks = map k_timestamp ks'"
  then show "s_wpm (calculateTypingStats ks tx t) = s_wpm (calculateTypingStats ks' tx' t)"
    by (rule timing_only(1))
next
  assume "map k_timestamp ks = map k_timestamp ks'"
  then show "s_consistency (calculateTypingStats ks tx t)
               = s_consistency (calculateTypingStats ks' tx' t)"
    by (rule timing_only(2))
next
  assume "map k_timestamp ks = map k_timestamp ks'"
  then show "s_position (calculateTypingStats ks tx t)
               = s_position (calculateTypingStats ks' tx' t)"
    by (rule timing_only(3))
next
  assume "\<not> ts_isCompleted ts" "ts_startTime ts = Some st"
  then show "\<exists>r. snd (completeTestSession userId ts None now)
               = [TestResult r, FriendTestCompleted userId (tr_wpm r) (tr_accuracy r) r]
            \<and> tr_wpm r = of_int (s_wpm (calculateTypingStats (ts_keystrokes ts) (ts_words ts) (now - st)))
            \<and> tr_accuracy r = of_int (s_accuracy (calculateTypingStats (ts_keystrokes ts) (ts_words ts) (now - st)))
            \<and> tr_consistency r = of_int (s_consistency (calculateTypingStats (ts_keystrokes ts) (ts_words ts) (now - st)))
            \<and> tr_errors r = of_int (s_errors (calculateTypingStats (ts_keystrokes ts) (ts_words ts) (now - st)))"
    by (rule complete_publishes_computed)
next
  assume "\<not> ts_isCompleted ts" "ts_startTime ts = Some st"
  then show "\<exists>r. snd (completeTestSession userId ts (Some fs) now)
               = [TestResult r, FriendTestCompleted userId (tr_wpm r) (tr_accuracy r) r]
            \<and> tr_wpm r = fs_wpm fs \<and> tr_accuracy r = fs_accuracy fs \<and> tr_errors r = fs_errors fs
            \<and> tr_consistency r = (case fs_consistency fs of None \<Rightarrow> 0 | Some c \<Rightarrow> c)"
    by (rule complete_publishes_provided)
qed

lemma server1_session: "sv_sessions server1 ''t1'' = Some session1"
  by (simp add: server1_def session1_def test_run_defs)

lemma server1_allows: "r_allowed (fst (checkKeystrokeRate (sv_buckets server1) ''u1'' 1000))"
  by (simp add: server1_def test_run_defs)

theorem published_metrics_sources_witness:
  "r_allowed (fst (checkKeystrokeRate (sv_buckets server1) ''u1'' 1000))
   \<and> keystrokeSchema (key_event 1000 True)
   \<and> sv_sessions server1 ''t1'' = Some session1
   \<and> \<not> ts_isCompleted session1 \<and> ts_startTime session1 = Some 0
   \<and> hd (snd (test_keystroke server1 ''u1'' (key_event 1000 True) 1000)) =
        StatsUpdate ''t1''
          (calculateTypingStats (ts_keystrokes session1 @ [stored_keystroke (key_event 1000 True) 1000])
             ''the of and'' 1000) 1000
   \<and> map k_timestamp [mk_key 0 True] = map k_timestamp [mk_key 0 False]
   \<and> s_wpm (calculateTypingStats [mk_key 0 True] ''the'' 1000)
       = s_wpm (calculateTypingStats [mk_key 0 False] ''of'' 1000)
   \<and> (\<exists>r. snd (completeTestSession ''u1'' session1 (Some (client_stats 300)) 2000)
              = [TestResult r, FriendTestCompleted ''u1'' (tr_wpm r) (tr_accuracy r) r]
            \<and> tr_wpm r = 300)"
proof -
  have h1: "r_allowed (fst (checkKeystrokeRate (sv_buckets server1) ''u1'' 1000))"
    by (rule server1_allows)
  have h2: "keystrokeSchema (key_event 1000 True)"
    by (simp add: keystrokeSchema_def key_event_def)
  have h3: "sv_sessions server1 (kd_testId (key_event 1000 True)) = Some session1"
    by (simp add: server1_session key_event_def)
  have h4: "ts_userId session1 = ''u1''" "\<not> ts_isCompleted session1"
    "ts_startTime session1 = Some 0"
    by (simp_all add: session1_def new_test_session_def)
  have h5: "map k_timestamp [mk_key 0 True] = map k_timestamp [mk_key 0 False]"
    by (simp add: mk_key_def)
  have v: "kd_testId (key_event 1000 True) = ''t1''" "ts_words session1 = ''the of and''"
    "session_start session1 1000 = 0" "fs_wpm (client_stats 300) = 300"
    by (simp_all add: key_event_def session1_def new_test_session_def session_start_def
          client_stats_def)
  note T = published_metrics_sources [where sv = server1 and userId = "''u1''" and now = 1000
      and d = "key_event 1000 True" and ts = session1 and ks = "[mk_key 0 True]"
      and ks' = "[mk_key 0 False]" and tx = "''the''" and tx' = "''of''" and t = 1000
      and st = 0 and fs = "client_stats 300"]
  have a: "hd (snd (test_keystroke server1 ''u1'' (key_event 1000 True) 1000)) =
        StatsUpdate ''t1''
          (calculateTypingStats (ts_keystrokes session1 @ [stored_keystroke (key_event 1000 True) 1000])
             ''the of and'' 1000) 1000"
    using T [THEN conjunct1] h1 h2 h3 h4 by (simp only: v simp_thms diff_zero)
  have b: "s_wpm (calculateTypingStats [mk_key 0 True] ''the'' 1000)
       = s_wpm (calculateTypingStats [mk_key 0 False] ''of'' 1000)"
    using T [THEN conjunct2, THEN conjunct1] h5 by (simp only: simp_thms)
  have c: "\<exists>r. snd (completeTestSession ''u1'' session1 (Some (client_stats 300)) 2000)
              = [TestResult r, FriendTestCompleted ''u1'' (tr_wpm r) (tr_accuracy r) r]
            \<and> tr_wpm r = 300"
    using published_metrics_sources [where ts = session1 and st = 0 and userId = "''u1''"
        and fs = "client_stats 300" and now = 2000, THEN conjunct2, THEN conjunct2] h4
    by (simp only: v simp_thms) blast
  show ?thesis using h1 h2 h3 h4 h5 a b c by (simp only: v simp_thms)
qed

section \<open>Properties of the race engine\<close>

lemma map_snd_zip_upt: "map (\<lambda>x. f (snd x)) (zip ps [0..<length ps]) = map f [0..<length ps]"
proof -
  have "map (\<lambda>x. f (snd x)) (zip ps [0..<length ps]) = map f (map snd (zip ps [0..<length ps]))"
    by (simp only: map_map comp_def)
  also have "map snd (zip ps [0..<length ps]) = [0..<length ps]"
    by (rule map_snd_zip) simp
  finally show ?thesis .
qed

lemma map_fst_zip_upt: "map (\<lambda>x. f (fst x)) (zip ps [0..<length ps]) = map f ps"
proof -
  have "map (\<lambda>x. f (fst x)) (zip ps [0..<length ps]) = map f (map fst (zip ps [0..<length ps]))"
    by (simp only: map_map comp_def)
  also have "map fst (zip ps [0..<length ps]) = ps"
    by (rule map_fst_zip) simp
  finally show ?thesis .
qed

lemma assign_ranks_rank:
  "map p_rank (assign_ranks k ps) = map (\<lambda>i. Some (int k + int i + 1)) [0..<length ps]"
  using map_snd_zip_upt [of "\<lambda>i. Some (int k + int i + 1)" ps]
  by (simp add: assign_ranks_def split_def comp_def)

lemma assign_ranks_ids: "map p_userId (assign_ranks k ps) = map p_userId ps"
  using map_fst_zip_upt [of p_userId ps]
  by (simp add: assign_ranks_def split_def comp_def)

lemma length_assign_ranks: "length (assign_ranks k ps) = length ps"
  by (simp add: assign_ranks_def)

lemma find_by_id:
  "uid \<in> set (map p_userId m) \<Longrightarrow>
   \<exists>q. find (\<lambda>q. p_userId q = uid) m = Some q \<and> q \<in> set m \<and> p_userId q = uid"
  by (induction m) auto

lemma write_back_ids:
  assumes "set (map p_userId players) \<subseteq> set (map p_userId m)"
  shows "map p_userId (write_back m players) = map p_userId players"
  using assms
proof (induction players)
  case Nil
  then show ?case by (simp add: write_back_def)
next
  case (Cons p ps)
  then have "p_userId p \<in> set (map p_userId m)" by auto
  from find_by_id [OF this] obtain q where
    "find (\<lambda>q. p_userId q = p_userId p) m = Some q" "p_userId q = p_userId p" by blast
  with Cons show ?case by (simp add: write_back_def)
qed

lemma write_back_mset:
  assumes d: "distinct (map p_userId players)"
    and m: "mset (map p_userId m) = mset (map p_userId players)"
  shows "mset (write_back m players) = mset m"
proof -
  have seteq: "set (map p_userId m) = set (map p_userId players)" using m by (metis set_mset_mset)
  have dm: "distinct (map p_userId m)" using d m by (metis mset_eq_imp_distinct_iff)
  have ids: "map p_userId (write_back m players) = map p_userId players"
    using seteq by (intro write_back_ids) simp
  have dw: "distinct (write_back m players)" using d ids by (metis distinct_map)
  have dmm: "distinct m" using dm by (metis distinct_map)
  have sub: "set (write_back m players) \<subseteq> set m"
  proof
    fix x assume "x \<in> set (write_back m players)"
    then obtain p where p: "p \<in> set players"
      "x = (case find (\<lambda>q. p_userId q = p_userId p) m of Some q \<Rightarrow> q | None \<Rightarrow> p)"
      by (auto simp: write_back_def)
    from p(1) have "p_userId p \<in> set (map p_userId players)" by simp
    then have "p_userId p \<in> set (map p_userId m)" by (simp only: seteq)
    from find_by_id [OF this] p(2) show "x \<in> set m" by auto
  qed
  have sup: "set m \<subseteq> set (write_back m players)"
  proof
    fix q assume q: "q \<in> set m"
    then have "p_userId q \<in> set (map p_userId m)" by simp
    then have "p_userId q \<in> set (map p_userId players)" by (simp only: seteq)
    then obtain p where p: "p \<in> set players" "p_userId p = p_userId q" by auto
    from q have "p_userId q \<in> set (map p_userId m)" by simp
    then have "p_userId p \<in> set (map p_userId m)" by (simp only: p(2))
    from find_by_id [OF this] obtain q' where q':
      "find (\<lambda>q. p_userId q = p_userId p) m = Some q'" "q' \<in> set m" "p_userId q' = p_userId p"
      by blast
    have "q' = q" using dm q q'(2,3) p(2) by (metis distinct_map inj_onD)
    then have "(case find (\<lambda>q. p_userId q = p_userId p) m of Some q \<Rightarrow> q | None \<Rightarrow> p) = q"
      using q'(1) by simp
    then show "q \<in> set (write_back m players)" using p(1) by (force simp: write_back_def)
  qed
  show ?thesis using sub sup dw dmm by (metis set_eq_iff_mset_eq_distinct subset_antisym)
qed

lemma ranks_upt: "ranks_upto n = map (\<lambda>i. Some (int i + 1)) [0..<n]"
proof -
  have "[1..<Suc n] = map Suc [0..<n]" by (simp only: map_Suc_upt One_nat_def)
  then show ?thesis by (simp add: comp_def ranks_upto_def)
qed

lemma ranks_append:
  "map (\<lambda>i. Some (int i + 1)) [0..<a] @ map (\<lambda>i. Some (int a + int i + 1)) [0..<b]
     = map (\<lambda>i. Some (int i + 1)) [0..<a + b]"
proof -
  have 1: "[0..<a + b] = [0..<a] @ [a..<a + b]" by (rule upt_add_eq_append) simp
  have 2: "map (\<lambda>i. i + a) [0..<b] = [a..<a + b]"
    using map_add_upt [of a b] by (simp only: add.commute [of b a])
  have 3: "map (\<lambda>i. Some (int a + int i + 1)) [0..<b]
         = map (\<lambda>i. Some (int i + 1)) (map (\<lambda>i. i + a) [0..<b])"
    by (simp add: comp_def ac_simps)
  show ?thesis by (simp only: 1 3 2 map_append)
qed

lemma ids_partition:
  "mset (map f (filter P ps)) + mset (map f (filter (\<lambda>p. \<not> P p) ps)) = mset (map f ps)"
  by (induction ps) auto

lemma ranked_props:
  fixes players :: "player list"
  defines "fin \<equiv> assign_ranks 0 (sort_key finish_key (filter p_isFinished players))"
  defines "unf \<equiv> assign_ranks (length fin) (filter (\<lambda>p. \<not> p_isFinished p) players)"
  shows "map p_rank (fin @ unf) = ranks_upto (length players)"
    and "mset (map p_userId (fin @ unf)) = mset (map p_userId players)"
proof -
  have lf: "length fin = length (filter p_isFinished players)"
    by (simp add: fin_def length_assign_ranks)
  have n: "length (filter p_isFinished players) + length (filter (\<lambda>p. \<not> p_isFinished p) players)
             = length players"
    by (rule sum_length_filter_compl)
  have "map p_rank (fin @ unf) =
      map (\<lambda>i. Some (int i + 1)) [0..<length (filter p_isFinished players)]
      @ map (\<lambda>i. Some (int (length (filter p_isFinished players)) + int i + 1))
          [0..<length (filter (\<lambda>p. \<not> p_isFinished p) players)]"
    by (simp add: fin_def unf_def assign_ranks_rank length_assign_ranks)
  also have "\<dots> = map (\<lambda>i. Some (int i + 1)) [0..<length players]"
    by (simp only: ranks_append n)
  finally show "map p_rank (fin @ unf) = ranks_upto (length players)"
    by (simp only: ranks_upt)
  have "mset (map p_userId (fin @ unf)) =
      mset (map p_userId (filter p_isFinished players))
      + mset (map p_userId (filter (\<lambda>p. \<not> p_isFinished p) players))"
    by (simp add: fin_def unf_def assign_ranks_ids)
  then show "mset (map p_userId (fin @ unf)) = mset (map p_userId players)"
    by (simp only: ids_partition)
qed

lemma ranked_players_ranks: "map p_rank (ranked_players players) = ranks_upto (length players)"
  unfolding ranked_players_def Let_def by (rule ranked_props(1))

lemma ranked_players_ids:
  "mset (map p_userId (ranked_players players)) = mset (map p_userId players)"
  unfolding ranked_players_def Let_def by (rule ranked_props(2))

lemma endRace_fst:
  "rc_status race \<noteq> Finished \<Longrightarrow>
   fst (endRace race now) = race\<lparr>rc_status := Finished, rc_endTime := Some now,
      rc_players := write_back (ranked_players (rc_players race)) (rc_players race)\<rparr>"
  by (simp add: endRace_def Let_def ranked_players_def split: option.splits)

lemma endRace_snd_None:
  "rc_status race \<noteq> Finished \<Longrightarrow> rc_startTime race = None \<Longrightarrow>
   snd (endRace race now) = ([], True)"
  by (simp add: endRace_def Let_def)

lemma endRace_snd_Some:
  "rc_status race \<noteq> Finished \<Longrightarrow> rc_startTime race = Some st \<Longrightarrow>
   \<exists>res. snd (endRace race now) = ([RaceCompleted res], False)
       \<and> rr_rankings res = map ranking_of (ranked_players (rc_players race))"
  by (simp add: endRace_def Let_def ranked_players_def)

lemma endRace_ranks:
  "rc_status race \<noteq> Finished \<and> distinct (map p_userId (rc_players race)) \<longrightarrow>
     (case endRace race now of
        (race', out, threw) \<Rightarrow>
          rc_status race' = Finished
          \<and> map p_userId (rc_players race') = map p_userId (rc_players race)
          \<and> mset (map p_rank (rc_players race')) = mset (ranks_upto (length (rc_players race)))
          \<and> (case rc_startTime race of
                None \<Rightarrow> out = [] \<and> threw
              | Some startTime \<Rightarrow>
                  (\<exists>res. out = [RaceCompleted res]
                     \<and> map rk_rank (rr_rankings res) = ranks_upto (length (rc_players race))
                     \<and> mset (map rk_userId (rr_rankings res))
                         = mset (map p_userId (rc_players race)))))"
proof (intro impI, elim conjE)
  assume nf: "rc_status race \<noteq> Finished" and d: "distinct (map p_userId (rc_players race))"
  define players where "players = rc_players race"
  define ranked where "ranked = ranked_players players"
  obtain race' out threw where E: "endRace race now = (race', out, threw)"
    by (cases "endRace race now") auto
  have pl: "rc_players race' = write_back ranked players"
    using endRace_fst [OF nf, of now] E by (simp add: players_def ranked_def)
  have P1: "rc_status race' = Finished"
    using endRace_fst [OF nf, of now] E by simp
  have rk: "map p_rank ranked = ranks_upto (length players)"
    unfolding ranked_def by (rule ranked_players_ranks)
  have ids: "mset (map p_userId ranked) = mset (map p_userId players)"
    unfolding ranked_def by (rule ranked_players_ids)
  have wb: "mset (write_back ranked players) = mset ranked"
    using d ids unfolding players_def [symmetric] by (rule write_back_mset)
  have "set (map p_userId ranked) = set (map p_userId players)" by (metis ids set_mset_mset)
  then have "set (map p_userId players) \<subseteq> set (map p_userId ranked)" by (simp only: subset_refl)
  then have P2: "map p_userId (rc_players race') = map p_userId players"
    unfolding pl by (rule write_back_ids)
  have "mset (map p_rank (write_back ranked players))
      = image_mset p_rank (mset (write_back ranked players))" by (rule mset_map)
  also have "\<dots> = image_mset p_rank (mset ranked)" by (simp only: wb)
  also have "\<dots> = mset (map p_rank ranked)" by (rule mset_map [symmetric])
  finally have P3: "mset (map p_rank (rc_players race')) = mset (ranks_upto (length players))"
    unfolding pl by (simp only: rk)
  have r2: "map rk_rank (map ranking_of ranked) = ranks_upto (length players)"
    using rk by (simp add: ranking_of_def comp_def)
  have "map rk_userId (map ranking_of ranked) = map p_userId ranked"
    by (simp add: ranking_of_def comp_def)
  then have r3: "mset (map rk_userId (map ranking_of ranked)) = mset (map p_userId players)"
    by (simp only: ids)
  have P4: "case rc_startTime race of
                None \<Rightarrow> out = [] \<and> threw
              | Some startTime \<Rightarrow>
                  (\<exists>res. out = [RaceCompleted res]
                     \<and> map rk_rank (rr_rankings res) = ranks_upto (length players)
                     \<and> mset (map rk_userId (rr_rankings res)) = mset (map p_userId players))"
  proof (cases "rc_startTime race")
    case None
    then show ?thesis using endRace_snd_None [OF nf None, of now] E by simp
  next
    case (Some st)
    from endRace_snd_Some [OF nf Some, of now] E obtain res where
      res: "out = [RaceCompleted res]" "rr_rankings res = map ranking_of ranked"
      by (auto simp: players_def ranked_def)
    have "map rk_rank (rr_rankings res) = ranks_upto (length players)
        \<and> mset (map rk_userId (rr_rankings res)) = mset (map p_userId players)"
      unfolding res(2) using r2 r3 by (rule conjI)
    with res(1) Some show ?thesis by auto
  qed
  show "case endRace race now of
        (race', out, threw) \<Rightarrow>
          rc_status race' = Finished
          \<and> map p_userId (rc_players race') = map p_userId (rc_players race)
          \<and> mset (map p_rank (rc_players race')) = mset (ranks_upto (length (rc_players race)))
          \<and> (case rc_startTime race of
                None \<Rightarrow> out = [] \<and> threw
              | Some startTime \<Rightarrow>
                  (\<exists>res. out = [RaceCompleted res]
                     \<and> map rk_rank (rr_rankings res) = ranks_upto (length (rc_players race))
                     \<and> mset (map rk_userId (rr_rankings res))
                         = mset (map p_userId (rc_players race))))"
    unfolding E prod.case players_def [symmetric] using P1 P2 P3 P4 by (intro conjI)
qed

lemma update_player_ids:
  "(\<And>p. p_userId (f p) = p_userId p) \<Longrightarrow> map p_userId (update_player ps u f) = map p_userId ps"
  by (induction ps) (auto simp: update_player_def)

lemma endRace_ids:
  assumes "endRace race now = (race', out, threw)"
  shows "map p_userId (rc_players race') = map p_userId (rc_players race)"
proof (cases "rc_status race = Finished")
  case True
  then show ?thesis using assms by (simp add: endRace_def)
next
  case False
  have "set (map p_userId (ranked_players (rc_players race))) = set (map p_userId (rc_players race))"
    by (metis ranked_players_ids set_mset_mset)
  then have "set (map p_userId (rc_players race))
      \<subseteq> set (map p_userId (ranked_players (rc_players race)))"
    by (simp only: subset_refl)
  then have "map p_userId (write_back (ranked_players (rc_players race)) (rc_players race))
      = map p_userId (rc_players race)"
    by (rule write_back_ids)
  then show ?thesis using endRace_fst [OF False, of now] assms by simp
qed

lemma checkRaceCompletion_ids:
  "checkRaceCompletion race now = (race', out, threw) \<Longrightarrow>
   map p_userId (rc_players race') = map p_userId (rc_players race)"
  by (auto simp: checkRaceCompletion_def Let_def split: if_splits option.splits
        dest: endRace_ids)

lemma distinct_upd:
  "rosters_distinct reg \<Longrightarrow> reg r = Some race \<Longrightarrow>
   map p_userId (rc_players race') = map p_userId (rc_players race) \<Longrightarrow>
   rosters_distinct (reg(r \<mapsto> race'))"
  by (auto simp: rosters_distinct_def)

lemma distinct_create: "rosters_distinct reg \<Longrightarrow> rosters_distinct (fst (race_create reg u n r w c))"
  by (auto simp: rosters_distinct_def race_create_def new_race_def Let_def)

lemma get_player_None_iff: "get_player ps u = None \<Longrightarrow> u \<notin> set (map p_userId ps)"
  by (induction ps) (auto simp: get_player_def split: if_splits)

lemma distinct_join: "rosters_distinct reg \<Longrightarrow> rosters_distinct (fst (race_join reg u n r))"
  by (auto simp: rosters_distinct_def race_join_def Let_def startRaceCountdown_def new_player_def
        split: option.splits if_splits dest: get_player_None_iff)

lemma distinct_delete: "distinct (map p_userId ps) \<Longrightarrow> distinct (map p_userId (delete_player ps u))"
  by (simp add: delete_player_def distinct_map_filter)

lemma distinct_leave: "rosters_distinct reg \<Longrightarrow> rosters_distinct (fst (race_leave reg u r))"
  by (auto simp: rosters_distinct_def race_leave_def Let_def distinct_delete
        split: option.splits if_splits)

lemma distinct_cleanup: "rosters_distinct reg \<Longrightarrow> rosters_distinct (cleanup_races reg u)"
  by (auto simp: rosters_distinct_def cleanup_races_def Let_def distinct_delete
        split: option.splits if_splits)

lemma distinct_message: "rosters_distinct reg \<Longrightarrow> rosters_distinct (fst (race_message reg u n r m))"
  by (auto simp: rosters_distinct_def race_message_def split: option.splits if_splits)

lemma distinct_tick: "rosters_distinct reg \<Longrightarrow> rosters_distinct (fst (step reg (Tick r now)))"
  by (auto simp: countdown_tick_def split: option.splits if_splits prod.splits
        intro!: distinct_upd)

lemma distinct_timeout: "rosters_distinct reg \<Longrightarrow> rosters_distinct (fst (step reg (Timeout r now)))"
  by (auto simp: race_timeout_def Let_def split: option.splits if_splits prod.splits
        intro!: distinct_upd dest!: endRace_ids)

lemma distinct_progress:
  assumes "rosters_distinct reg"
  shows "rosters_distinct (fst (race_progress reg u d now))"
proof (cases "reg (pd_raceId d)")
  case None
  then show ?thesis using assms by (simp add: race_progress_def)
next
  case (Some race)
  have upd: "rosters_distinct (reg(pd_raceId d \<mapsto> race'))"
    if "map p_userId (rc_players race') = map p_userId (rc_players race)" for race'
    using assms Some that by (rule distinct_upd)
  show ?thesis
    using assms Some
    by (auto simp: race_progress_def Let_def update_player_ids
          split: option.splits prod.splits
          intro!: upd dest!: checkRaceCompletion_ids)
qed

lemma distinct_finish:
  assumes "rosters_distinct reg"
  shows "rosters_distinct (fst (race_finish reg u r fs now))"
proof (cases "reg r")
  case None
  then show ?thesis using assms by (simp add: race_finish_def)
next
  case (Some race)
  have upd: "rosters_distinct (reg(r \<mapsto> race'))"
    if "map p_userId (rc_players race') = map p_userId (rc_players race)" for race'
    using assms Some that by (rule distinct_upd)
  show ?thesis
    using assms Some
    by (auto simp: race_finish_def Let_def update_player_ids
          split: option.splits prod.splits
          intro!: upd dest!: checkRaceCompletion_ids)
qed

lemma distinct_step: "rosters_distinct reg \<Longrightarrow> rosters_distinct (fst (step reg e))"
proof (cases e)
  case (Tick r now)
  assume "rosters_distinct reg"
  then show ?thesis unfolding Tick by (rule distinct_tick)
next
  case (Timeout r now)
  assume "rosters_distinct reg"
  then show ?thesis unfolding Timeout by (rule distinct_timeout)
qed (simp_all add: distinct_create distinct_join distinct_leave distinct_progress
      distinct_finish distinct_message distinct_cleanup)

lemma distinct_run: "rosters_distinct reg \<Longrightarrow> rosters_distinct (run reg es)"
  by (induction es arbitrary: reg) (simp_all add: distinct_step)

lemma reachable_rosters_distinct: "rosters_distinct (run Map.empty es)"
  by (rule distinct_run) (simp add: rosters_distinct_def)

text \<open>
  C3: when \<open>endRace\<close> moves a race to its completed state, every roster member keeps
  its place in the roster and holds one rank, the ranks held across the roster are the
  numbers 1 to the roster size, each once, and the rankings published in
  \<open>race:completed\<close> list the ranks 1 to the roster size in order, one entry per
  roster member. The roster is a map keyed by user id, and in every registry that the
  events reach no roster holds a user id twice. (While the start time is unset
  \<open>endRace\<close> throws after assigning the ranks and publishes nothing.)
\<close>

theorem endRace_ranks_permutation:
  "rosters_distinct (run Map.empty es)
   \<and> (rc_status race \<noteq> Finished \<and> distinct (map p_userId (rc_players race)) \<longrightarrow>
       (case endRace race now of
          (race', out, threw) \<Rightarrow>
            rc_status race' = Finished
            \<and> map p_userId (rc_players race') = map p_userId (rc_players race)
            \<and> mset (map p_rank (rc_players race')) = mset (ranks_upto (length (rc_players race)))
            \<and> (case rc_startTime race of
                  None \<Rightarrow> out = [] \<and> threw
                | Some startTime \<Rightarrow>
                    (\<exists>res. out = [RaceCompleted res]
                       \<and> map rk_rank (rr_rankings res) = ranks_upto (length (rc_players race))
                       \<and> mset (map rk_userId (rr_rankings res))
                           = mset (map p_userId (rc_players race))))))"
  using reachable_rosters_distinct [of es] endRace_ranks [of race now] by (rule conjI)

lemmas race_run_defs = ev_create_def ev_join_def six_ticks_def duel_def race_create_def
  raceCreateSchema_def new_race_def new_player_def race_join_def raceJoinSchema_def get_player_def
  startRaceCountdown_def countdown_tick_def Let_def

lemma reg_waiting_eq: "reg_waiting = [''r1'' \<mapsto> race_waiting]"
  by (simp add: reg_waiting_def race_waiting_def race_run_defs)

lemma reg_countdown_eq: "reg_countdown = [''r1'' \<mapsto> race_countdown]"
  by (simp add: reg_countdown_def reg_waiting_eq race_countdown_def race_waiting_def race_run_defs)

lemma reg_active_eq: "reg_active = [''r1'' \<mapsto> race_active]"
  by (simp add: reg_active_def reg_countdown_eq race_active_def race_countdown_def
        race_waiting_def race_run_defs)

lemma ranked_active:
  "ranked_players (rc_players race_active)
     = [(new_player ''u1'' ''ann'')\<lparr>p_rank := Some 1\<rparr>, (new_player ''u2'' ''bob'')\<lparr>p_rank := Some 2\<rparr>]"
  by (simp add: ranked_players_def race_active_def race_countdown_def race_waiting_def
        new_race_def new_player_def assign_ranks_def Let_def)

theorem endRace_ranks_permutation_witness:
  "rc_status race_active \<noteq> Finished
   \<and> distinct (map p_userId (rc_players race_active))
   \<and> ranks_upto (length (rc_players race_active)) = [Some 1, Some 2]
   \<and> mset (map p_rank (rc_players (fst (endRace race_active 9000)))) = mset [Some 1, Some 2]"
proof -
  have h1: "rc_status race_active \<noteq> Finished"
    by (simp add: race_active_def)
  have h2: "distinct (map p_userId (rc_players race_active))"
    by (simp add: race_active_def race_countdown_def new_player_def)
  have h3: "ranks_upto (length (rc_players race_active)) = [Some 1, Some 2]"
    by (simp add: ranks_upto_def race_active_def race_countdown_def upt_rec)
  have "mset (map p_rank (rc_players (fst (endRace race_active 9000))))
          = mset (ranks_upto (length (rc_players race_active)))"
    using endRace_ranks_permutation [of "[]" race_active 9000, THEN conjunct2] h1 h2
    by (cases "endRace race_active 9000") simp
  then show ?thesis using h1 h2 h3 by (simp only: simp_thms)
qed

lemmas race_handler_defs = race_finish_def raceFinishSchema_def finish_stats_def
  raceProgressSchema_def
  update_player_def checkRaceCompletion_def endRace_def assign_ranks_def write_back_def
  finish_key_def status_of_def race_progress_def progress_flag_def falsy_time_def
  finish_state_def progress_of_def

text \<open>
  C4 says that the status of a race never moves backwards along waiting, countdown,
  active, completed. The code breaks this: \<open>race:finish\<close> ends a race in any status
  (only \<open>race:progress\<close> checks for \<open>active\<close>), and the countdown interval then
  sets the status to \<open>active\<close> without looking at it. When both players of the
  concrete race send \<open>race:finish\<close> during the countdown, the status runs through
  waiting, countdown, finished, active.
\<close>

theorem status_moves_backwards:
  "remdups_adj (status_trace Map.empty ''r1'' early_finish)
     = [None, Some Waiting, Some Countdown, Some Finished, Some Active]"
  by (simp add: early_finish_def race_run_defs race_handler_defs)

text \<open>
  C9 says that a player's finished flag goes from false to true at most once and never
  back, and that the finish time is assigned once and never overwritten. The code
  breaks this: \<open>race:progress\<close> stores the client's \<open>isFinished\<close> as sent, so a
  finished player is unfinished again by the next progress event, and a later
  \<open>race:finish\<close> overwrites the finish time 1000 with the client's 99.
\<close>

theorem finished_flag_reverts:
  "finish_trace reg_active ''r1'' ''u1'' unfinish
     = [Some (False, None), Some (True, Some 1000), Some (False, Some 1000), Some (True, Some 99)]"
  by (simp add: unfinish_def reg_active_eq race_active_def race_countdown_def race_waiting_def
        race_run_defs race_handler_defs)

text \<open>
  C7, as stated, fails: the handler tests for a full roster before it looks for the
  caller in the roster. In the concrete race, which is full with \<open>u1\<close> and \<open>u2\<close>,
  a second \<open>race:join\<close> of \<open>u2\<close> is answered with \<open>RACE_FULL\<close>, not with the
  joined state.
\<close>

theorem rejoin_full_counterexample:
  "map_option (\<lambda>race. has_player (rc_players race) ''u2'') (reg_countdown ''r1'') = Some True
   \<and> race_join reg_countdown ''u2'' ''bob'' ''r1'' = (reg_countdown, [RaceError 2002 ''RACE_FULL''])"
  by (simp add: reg_countdown_eq race_countdown_def race_waiting_def race_run_defs has_player_def)

text \<open>
  C7 (amended): a second \<open>race:join\<close> from an identity already in the roster leaves
  the registry unchanged (roster membership, size, every player's progress fields and
  the status), whatever the occupancy and status; it re-emits the joined state to the
  caller when the roster is not full and the status is neither active nor finished,
  and is otherwise answered with \<open>RACE_FULL\<close> (2002), \<open>RACE_STARTED\<close> (2003) or
  \<open>RACE_FINISHED\<close> (2004), tested in this order.
\<close>

theorem rejoin_leaves_roster:
  "raceJoinSchema raceId \<and> activeRaces raceId = Some race
     \<and> get_player (rc_players race) userId = Some existing \<longrightarrow>
     fst (race_join activeRaces userId username raceId) = activeRaces
     \<and> snd (race_join activeRaces userId username raceId) =
         (if real (length (rc_players race)) \<ge> rc_maxPlayers race then [RaceError 2002 ''RACE_FULL'']
          else if rc_status race = Active then [RaceError 2003 ''RACE_STARTED'']
          else if rc_status race = Finished then [RaceError 2004 ''RACE_FINISHED'']
          else [RaceJoined race existing])"
  by (simp add: race_join_def)

theorem rejoin_leaves_roster_witness:
  "raceJoinSchema ''r1'' \<and> reg_waiting ''r1'' = Some race_waiting
   \<and> get_player (rc_players race_waiting) ''u1'' = Some (new_player ''u1'' ''ann'')
   \<and> race_join reg_waiting ''u1'' ''ann'' ''r1''
       = (reg_waiting, [RaceJoined race_waiting (new_player ''u1'' ''ann'')])"
proof -
  have h0: "raceJoinSchema ''r1''" by (simp add: raceJoinSchema_def)
  have h1: "reg_waiting ''r1'' = Some race_waiting" by (simp add: reg_waiting_eq)
  have h2: "get_player (rc_players race_waiting) ''u1'' = Some (new_player ''u1'' ''ann'')"
    by (simp add: race_waiting_def new_race_def get_player_def new_player_def)
  have h3: "\<not> real (length (rc_players race_waiting)) \<ge> rc_maxPlayers race_waiting"
    "rc_status race_waiting = Waiting"
    by (simp_all add: race_waiting_def new_race_def duel_def)
  show ?thesis
    using rejoin_leaves_roster [of "''r1''" reg_waiting race_waiting "''u1''"
        "new_player ''u1'' ''ann''" "''ann''"] h0 h1 h2 h3
    by (cases "race_join reg_waiting ''u1'' ''ann'' ''r1''") simp
qed







lemma length_write_back: "length (write_back m ps) = length ps"
  by (simp add: write_back_def)

lemma endRace_roster_length:
  "endRace race now = (race', out, threw) \<Longrightarrow> length (rc_players race') = length (rc_players race)"
  by (auto simp: endRace_def Let_def length_write_back split: if_splits option.splits)

lemma checkRaceCompletion_roster_length:
  "checkRaceCompletion race now = (race', out, threw) \<Longrightarrow>
   length (rc_players race') = length (rc_players race)"
  by (auto simp: checkRaceCompletion_def Let_def split: if_splits option.splits
        dest: endRace_roster_length)

lemma length_update_player: "length (update_player ps u f) = length ps"
  by (simp add: update_player_def)

lemma get_player_nonempty: "get_player ps u = Some p \<Longrightarrow> ps \<noteq> []"
  by (auto simp: get_player_def)

lemma nonempty_create: "rosters_nonempty reg \<Longrightarrow> rosters_nonempty (fst (race_create reg u n r w c))"
  by (auto simp: rosters_nonempty_def race_create_def new_race_def Let_def)

lemma nonempty_join: "rosters_nonempty reg \<Longrightarrow> rosters_nonempty (fst (race_join reg u n r))"
  by (auto simp: rosters_nonempty_def race_join_def Let_def startRaceCountdown_def
        split: option.splits if_splits)

lemma nonempty_leave: "rosters_nonempty reg \<Longrightarrow> rosters_nonempty (fst (race_leave reg u r))"
  by (auto simp: rosters_nonempty_def race_leave_def Let_def split: option.splits if_splits)

lemma nonempty_cleanup: "rosters_nonempty reg \<Longrightarrow> rosters_nonempty (cleanup_races reg u)"
  by (auto simp: rosters_nonempty_def cleanup_races_def Let_def split: option.splits if_splits)

lemma nonempty_message: "rosters_nonempty reg \<Longrightarrow> rosters_nonempty (fst (race_message reg u n r m))"
  by (auto simp: rosters_nonempty_def race_message_def split: option.splits if_splits)

lemma nonempty_upd:
  "rosters_nonempty reg \<Longrightarrow> reg r = Some race \<Longrightarrow>
   length (rc_players race') = length (rc_players race) \<Longrightarrow> rosters_nonempty (reg(r \<mapsto> race'))"
  by (auto simp: rosters_nonempty_def)

lemma nonempty_tick:
  "rosters_nonempty reg \<Longrightarrow> rosters_nonempty (fst (step reg (Tick r now)))"
  by (auto simp: countdown_tick_def split: option.splits if_splits prod.splits
        intro!: nonempty_upd)

lemma nonempty_timeout:
  "rosters_nonempty reg \<Longrightarrow> rosters_nonempty (fst (step reg (Timeout r now)))"
  by (auto simp: race_timeout_def Let_def split: option.splits if_splits prod.splits
        intro!: nonempty_upd dest!: endRace_roster_length)

lemma nonempty_progress:
  assumes "rosters_nonempty reg"
  shows "rosters_nonempty (fst (race_progress reg u d now))"
proof (cases "reg (pd_raceId d)")
  case None
  then show ?thesis using assms by (simp add: race_progress_def)
next
  case (Some race)
  have upd: "rosters_nonempty (reg(pd_raceId d \<mapsto> race'))"
    if "length (rc_players race') = length (rc_players race)" for race'
    using assms Some that by (rule nonempty_upd)
  show ?thesis
  proof (cases "get_player (rc_players race) u")
    case None
    then show ?thesis using assms Some by (simp add: race_progress_def)
  next
    case (Some player)
    show ?thesis
      using assms \<open>reg (pd_raceId d) = Some race\<close> Some
      by (auto simp: race_progress_def Let_def length_update_player
            split: option.splits prod.splits
            intro!: upd dest!: checkRaceCompletion_roster_length)
  qed
qed

lemma nonempty_finish:
  assumes "rosters_nonempty reg"
  shows "rosters_nonempty (fst (race_finish reg u r fs now))"
proof (cases "reg r")
  case None
  then show ?thesis using assms by (simp add: race_finish_def)
next
  case (Some race)
  have upd: "rosters_nonempty (reg(r \<mapsto> race'))"
    if "length (rc_players race') = length (rc_players race)" for race'
    using assms Some that by (rule nonempty_upd)
  show ?thesis
    using assms Some
    by (auto simp: race_finish_def Let_def length_update_player
          split: option.splits prod.splits
          intro!: upd dest!: checkRaceCompletion_roster_length)
qed

lemma nonempty_step: "rosters_nonempty reg \<Longrightarrow> rosters_nonempty (fst (step reg e))"
proof (cases e)
  case (Tick r now)
  assume "rosters_nonempty reg"
  then show ?thesis unfolding Tick by (rule nonempty_tick)
next
  case (Timeout r now)
  assume "rosters_nonempty reg"
  then show ?thesis unfolding Timeout by (rule nonempty_timeout)
qed (simp_all add: nonempty_create nonempty_join nonempty_leave nonempty_progress
      nonempty_finish nonempty_message nonempty_cleanup)

lemma nonempty_run: "rosters_nonempty reg \<Longrightarrow> rosters_nonempty (run reg es)"
  by (induction es arbitrary: reg) (simp_all add: nonempty_step)

lemma absent_step:
  "reg raceId = None \<Longrightarrow> \<not> creates raceId e \<Longrightarrow> fst (step reg e) raceId = None"
proof (cases e)
  case (Create u n r w c)
  assume "reg raceId = None" "\<not> creates raceId e"
  then show ?thesis using Create by (auto simp: race_create_def Let_def)
next
  case (Join u n r)
  assume "reg raceId = None"
  then show ?thesis using Join
    by (auto simp: race_join_def Let_def startRaceCountdown_def split: option.splits if_splits)
next
  case (Leave u r)
  assume "reg raceId = None"
  then show ?thesis using Leave
    by (auto simp: race_leave_def Let_def split: option.splits if_splits)
next
  case (Progress u d now)
  assume "reg raceId = None"
  then show ?thesis using Progress
    by (auto simp: race_progress_def Let_def split: option.splits if_splits prod.splits)
next
  case (Finish u r fs now)
  assume "reg raceId = None"
  then show ?thesis using Finish
    by (auto simp: race_finish_def Let_def split: option.splits if_splits prod.splits)
next
  case (Message u n r m)
  assume "reg raceId = None"
  then show ?thesis using Message
    by (auto simp: race_message_def split: option.splits if_splits)
next
  case (Disconnect u)
  assume "reg raceId = None"
  then show ?thesis using Disconnect by (simp add: cleanup_races_def)
next
  case (Tick r now)
  assume "reg raceId = None"
  then show ?thesis using Tick by (auto split: option.splits prod.splits)
next
  case (Timeout r now)
  assume "reg raceId = None"
  then show ?thesis using Timeout by (auto split: option.splits prod.splits)
qed

lemma absent_run:
  "reg raceId = None \<Longrightarrow> list_all (\<lambda>e. \<not> creates raceId e) es \<Longrightarrow> run reg es raceId = None"
  by (induction es arbitrary: reg) (simp_all add: absent_step)

lemma leave_last:
  assumes "raceId \<noteq> []" "reg raceId = Some race" "map p_userId (rc_players race) = [userId]"
  shows "fst (race_leave reg userId raceId) raceId = None"
proof -
  from assms(3) obtain p where p: "rc_players race = [p]" "p_userId p = userId" by auto
  then show ?thesis using assms(1,2)
    by (simp add: race_leave_def has_player_def delete_player_def Let_def)
qed

lemma not_found:
  "reg raceId = None \<Longrightarrow> raceProgressSchema (d\<lparr>pd_raceId := raceId\<rparr>) \<Longrightarrow>
   raceMessageSchema raceId m \<Longrightarrow>
   snd (race_progress reg u (d\<lparr>pd_raceId := raceId\<rparr>) now) = [RaceError 2001 ''RACE_NOT_FOUND'']
   \<and> snd (race_message reg u n raceId m) = [RaceError 2001 ''RACE_NOT_FOUND'']"
  by (simp add: race_progress_def race_message_def)

text \<open>
  C10: every race in the registry has a non-empty roster, in every state that the
  events reach from the empty registry; a \<open>race:leave\<close> of the last player deletes
  the race from the registry whatever its status, and after it, through any later
  events that do not create the id anew, \<open>race:progress\<close> and \<open>race:message\<close>
  for that race id are answered with \<open>RACE_NOT_FOUND\<close>.
\<close>

theorem registry_rosters_nonempty:
  "rosters_nonempty (run Map.empty es)
   \<and> (raceId \<noteq> [] \<and> activeRaces raceId = Some race \<and> map p_userId (rc_players race) = [userId]
        \<and> list_all (\<lambda>e. \<not> creates raceId e) later
        \<and> raceProgressSchema (d\<lparr>pd_raceId := raceId\<rparr>) \<and> raceMessageSchema raceId m \<longrightarrow>
      fst (race_leave activeRaces userId raceId) raceId = None
      \<and> run (fst (race_leave activeRaces userId raceId)) later raceId = None
      \<and> snd (race_progress (run (fst (race_leave activeRaces userId raceId)) later) u
                (d\<lparr>pd_raceId := raceId\<rparr>) now) = [RaceError 2001 ''RACE_NOT_FOUND'']
      \<and> snd (race_message (run (fst (race_leave activeRaces userId raceId)) later) u n raceId m)
          = [RaceError 2001 ''RACE_NOT_FOUND''])"
proof (intro conjI impI; (elim conjE)?)
  show "rosters_nonempty (run Map.empty es)"
    by (rule nonempty_run) (simp add: rosters_nonempty_def)
next
  assume a: "raceId \<noteq> []" "activeRaces raceId = Some race"
    "map p_userId (rc_players race) = [userId]" "list_all (\<lambda>e. \<not> creates raceId e) later"
    "raceProgressSchema (d\<lparr>pd_raceId := raceId\<rparr>)" "raceMessageSchema raceId m"
  show gone: "fst (race_leave activeRaces userId raceId) raceId = None"
    using a(1-3) by (rule leave_last)
  then show absent: "run (fst (race_leave activeRaces userId raceId)) later raceId = None"
    using a(4) by (rule absent_run)
  show "snd (race_progress (run (fst (race_leave activeRaces userId raceId)) later) u
                (d\<lparr>pd_raceId := raceId\<rparr>) now) = [RaceError 2001 ''RACE_NOT_FOUND'']"
    using not_found [of "run (fst (race_leave activeRaces userId raceId)) later" raceId d m u now n]
      absent a(5,6) by blast
  show "snd (race_message (run (fst (race_leave activeRaces userId raceId)) later) u n raceId m)
          = [RaceError 2001 ''RACE_NOT_FOUND'']"
    using not_found [of "run (fst (race_leave activeRaces userId raceId)) later" raceId d m u now n]
      absent a(5,6) by blast
qed

lemma reg_solo_eq: "reg_solo = [''r1'' \<mapsto> race_solo]"
  by (simp add: reg_solo_def reg_active_eq race_solo_def race_active_def race_countdown_def
        race_waiting_def new_race_def new_player_def race_leave_def has_player_def
        delete_player_def Let_def)

theorem registry_rosters_nonempty_witness:
  "rosters_nonempty reg_active
   \<and> ''r1'' \<noteq> [] \<and> reg_solo ''r1'' = Some race_solo \<and> rc_status race_solo = Active
   \<and> map p_userId (rc_players race_solo) = [''u1'']
   \<and> list_all (\<lambda>e. \<not> creates ''r1'' e) stale_timers
   \<and> raceProgressSchema (progress_flag False) \<and> raceMessageSchema ''r1'' ''hello''
   \<and> fst (race_leave reg_solo ''u1'' ''r1'') ''r1'' = None
   \<and> snd (race_progress (run (fst (race_leave reg_solo ''u1'' ''r1'')) stale_timers) ''u1''
            (progress_flag False) 8000) = [RaceError 2001 ''RACE_NOT_FOUND'']
   \<and> snd (race_message (run (fst (race_leave reg_solo ''u1'' ''r1'')) stale_timers) ''u1'' ''ann''
            ''r1'' ''hello'') = [RaceError 2001 ''RACE_NOT_FOUND'']"
proof -
  have r: "reg_active = run Map.empty (ev_create # ev_join # six_ticks)"
    by (simp add: reg_active_def reg_countdown_def reg_waiting_def)
  have h1: "''r1'' \<noteq> []" by simp
  have h2: "reg_solo ''r1'' = Some race_solo" by (simp add: reg_solo_eq)
  have h3: "map p_userId (rc_players race_solo) = [''u1'']" "rc_status race_solo = Active"
    by (simp_all add: race_solo_def new_player_def race_active_def)
  have h4: "list_all (\<lambda>e. \<not> creates ''r1'' e) stale_timers"
    by (simp add: stale_timers_def)
  have p: "(progress_flag False)\<lparr>pd_raceId := ''r1''\<rparr> = progress_flag False"
    by (simp add: progress_flag_def)
  have h5: "raceProgressSchema (progress_flag False)" "raceMessageSchema ''r1'' ''hello''"
    by (simp_all add: raceProgressSchema_def progress_flag_def raceMessageSchema_def)
  note T = registry_rosters_nonempty [where es = "ev_create # ev_join # six_ticks"
      and raceId = "''r1''" and activeRaces = reg_solo and race = race_solo
      and userId = "''u1''" and later = stale_timers and u = "''u1''"
      and d = "progress_flag False" and now = 8000 and n = "''ann''" and m = "''hello''"]
  have a: "rosters_nonempty reg_active" using T unfolding r by blast
  have b: "fst (race_leave reg_solo ''u1'' ''r1'') ''r1'' = None
   \<and> snd (race_progress (run (fst (race_leave reg_solo ''u1'' ''r1'')) stale_timers) ''u1''
            (progress_flag False) 8000) = [RaceError 2001 ''RACE_NOT_FOUND'']
   \<and> snd (race_message (run (fst (race_leave reg_solo ''u1'' ''r1'')) stale_timers) ''u1'' ''ann''
            ''r1'' ''hello'') = [RaceError 2001 ''RACE_NOT_FOUND'']"
    using T h1 h2 h3(1) h4 h5 unfolding p by blast
  show ?thesis using a h1 h2 h3 h4 h5 b by (simp only: simp_thms)
qed

end
